theory Spec2Isabelle
  imports Complex_Main
begin

section \<open>Conventions of the embedding\<close>

text \<open>
  The C sources are embedded shallowly.

  \<^item> A C \<open>int\<close> is an \<open>int\<close>; the sizes and indices the functions compute stay far below
    the machine range wherever the code guards its allocations, and no statement below
    relies on wrap-around.
  \<^item> A C \<open>double\<close> is a \<open>real\<close>. Copies and comparisons of finite doubles are exact under
    this reading; sums, products and quotients are the unrounded ones.
  \<^item> A call of \<open>exit(EXIT_FAILURE)\<close> after a diagnostic is the error value \<open>Exit msg\<close>; an
    access outside an array or through a null pointer (undefined behaviour in C) is
    the error value \<open>Segv\<close>; an integer division by zero is \<open>DivZero\<close>.
  \<^item> A counted loop \<open>for (i = 0; i < n; ++i)\<close> is \<open>forE [0..<nat n]\<close>, which runs its body
    on the indices in order and stops at the first error.
\<close>

datatype error = Exit string | Segv | DivZero

fun forE :: "nat list \<Rightarrow> (nat \<Rightarrow> 's \<Rightarrow> error + 's) \<Rightarrow> 's \<Rightarrow> error + 's" where
  "forE [] body s = Inr s"
| "forE (i # is) body s =
     (case body i s of Inl e \<Rightarrow> Inl e | Inr s' \<Rightarrow> forE is body s')"

text \<open>Reading and writing one cell of an array, with the bounds checked.\<close>

definition rd :: "'a list \<Rightarrow> int \<Rightarrow> error + 'a" where
  "rd xs i = (if 0 \<le> i \<and> i < int (length xs) then Inr (xs ! nat i) else Inl Segv)"

definition wr :: "'a list \<Rightarrow> int \<Rightarrow> 'a \<Rightarrow> error + 'a list" where
  "wr xs i v = (if 0 \<le> i \<and> i < int (length xs) then Inr (xs[nat i := v]) else Inl Segv)"

section \<open>Constant prediction (pred\_constant.c)\<close>

text \<open>The fields of \<open>struct XCSF\<close> and \<open>struct Cl\<close> that the sources read.\<close>

record xcsf =
  BETA :: real
  y_dim :: int
  explore :: bool

record cl =
  exp :: int
  prediction :: "real list"

text \<open>
  \<open>pred_constant_update\<close>: the two loops over \<open>var\<close>, the first taken while
  \<open>c->exp * BETA < 1\<close>. The argument \<open>x\<close> is cast to void.
\<close>

definition mean_step :: "cl \<Rightarrow> real list \<Rightarrow> nat \<Rightarrow> real list \<Rightarrow> error + real list" where
  "mean_step c y var p =
     (case rd p (int var) of Inl e \<Rightarrow> Inl e | Inr pv \<Rightarrow>
      case rd y (int var) of Inl e \<Rightarrow> Inl e | Inr yv \<Rightarrow>
        wr p (int var) ((pv * of_int (exp c - 1) + yv) / of_int (exp c)))"

definition beta_step :: "xcsf \<Rightarrow> real list \<Rightarrow> nat \<Rightarrow> real list \<Rightarrow> error + real list" where
  "beta_step X y var p =
     (case rd p (int var) of Inl e \<Rightarrow> Inl e | Inr pv \<Rightarrow>
      case rd y (int var) of Inl e \<Rightarrow> Inl e | Inr yv \<Rightarrow>
        wr p (int var) (pv + BETA X * (yv - pv)))"

definition pred_constant_update ::
  "xcsf \<Rightarrow> cl \<Rightarrow> real list \<Rightarrow> real list \<Rightarrow> error + cl" where
  "pred_constant_update X c x y =
     (case (if of_int (exp c) * BETA X < 1
            then forE [0..<nat (y_dim X)] (mean_step c y) (prediction c)
            else forE [0..<nat (y_dim X)] (beta_step X y) (prediction c)) of
        Inl e \<Rightarrow> Inl e
      | Inr p \<Rightarrow> Inr (c\<lparr>prediction := p\<rparr>))"

section \<open>Memory\<close>

text \<open>
  The arrays a layer owns (\<open>output\<close>, \<open>delta\<close>, \<open>state\<close>, \<open>indexes\<close>) live in a store and
  are reached through addresses, so that two layers can be asked whether they share an
  array. \<open>dmem\<close> holds the live arrays of \<open>double\<close>, \<open>imem\<close> the live arrays of \<open>int\<close>;
  every address from \<open>brk\<close> on has never been handed out. A pointer is an \<open>addr option\<close>,
  \<open>None\<close> being \<open>NULL\<close>. Allocation never fails in the model.
\<close>

type_synonym addr = nat

record heap =
  dmem :: "addr \<Rightarrow> real list option"
  imem :: "addr \<Rightarrow> int list option"
  brk :: addr

definition calloc_d :: "int \<Rightarrow> heap \<Rightarrow> addr option \<times> heap" where
  "calloc_d n h =
     (Some (brk h), h\<lparr>dmem := (dmem h)(brk h \<mapsto> replicate (nat n) 0), brk := Suc (brk h)\<rparr>)"

definition calloc_i :: "int \<Rightarrow> heap \<Rightarrow> addr option \<times> heap" where
  "calloc_i n h =
     (Some (brk h), h\<lparr>imem := (imem h)(brk h \<mapsto> replicate (nat n) 0), brk := Suc (brk h)\<rparr>)"

text \<open>\<open>free(NULL)\<close> does nothing.\<close>

definition free_d :: "addr option \<Rightarrow> heap \<Rightarrow> heap" where
  "free_d p h = (case p of None \<Rightarrow> h | Some a \<Rightarrow> h\<lparr>dmem := (dmem h)(a := None)\<rparr>)"

definition free_i :: "addr option \<Rightarrow> heap \<Rightarrow> heap" where
  "free_i p h = (case p of None \<Rightarrow> h | Some a \<Rightarrow> h\<lparr>imem := (imem h)(a := None)\<rparr>)"

text \<open>
  \<open>realloc\<close> may move the block. The model always moves it to a fresh address, keeps the
  cells both sizes share and fills the new ones with 0 (they are indeterminate in C; no
  statement below reads them).
\<close>

definition resized :: "nat \<Rightarrow> 'a::zero list \<Rightarrow> 'a list" where
  "resized n xs = take n xs @ replicate (n - length xs) 0"

definition realloc_d :: "addr option \<Rightarrow> int \<Rightarrow> heap \<Rightarrow> addr option \<times> heap" where
  "realloc_d p n h =
     (let old = (case p of None \<Rightarrow> [] | Some a \<Rightarrow> (case dmem h a of None \<Rightarrow> [] | Some xs \<Rightarrow> xs));
          h1 = free_d p h
      in (Some (brk h1),
          h1\<lparr>dmem := (dmem h1)(brk h1 \<mapsto> resized (nat n) old), brk := Suc (brk h1)\<rparr>))"

definition realloc_i :: "addr option \<Rightarrow> int \<Rightarrow> heap \<Rightarrow> addr option \<times> heap" where
  "realloc_i p n h =
     (let old = (case p of None \<Rightarrow> [] | Some a \<Rightarrow> (case imem h a of None \<Rightarrow> [] | Some xs \<Rightarrow> xs));
          h1 = free_i p h
      in (Some (brk h1),
          h1\<lparr>imem := (imem h1)(brk h1 \<mapsto> resized (nat n) old), brk := Suc (brk h1)\<rparr>))"

text \<open>Dereferencing: a null or dangling pointer is an invalid access.\<close>

definition deref_d :: "heap \<Rightarrow> addr option \<Rightarrow> error + real list" where
  "deref_d h p = (case p of None \<Rightarrow> Inl Segv
                  | Some a \<Rightarrow> (case dmem h a of None \<Rightarrow> Inl Segv | Some xs \<Rightarrow> Inr xs))"

definition deref_i :: "heap \<Rightarrow> addr option \<Rightarrow> error + int list" where
  "deref_i h p = (case p of None \<Rightarrow> Inl Segv
                  | Some a \<Rightarrow> (case imem h a of None \<Rightarrow> Inl Segv | Some xs \<Rightarrow> Inr xs))"

definition store_d :: "addr option \<Rightarrow> real list \<Rightarrow> heap \<Rightarrow> heap" where
  "store_d p xs h = (case p of None \<Rightarrow> h | Some a \<Rightarrow> h\<lparr>dmem := (dmem h)(a \<mapsto> xs)\<rparr>)"

definition store_i :: "addr option \<Rightarrow> int list \<Rightarrow> heap \<Rightarrow> heap" where
  "store_i p xs h = (case p of None \<Rightarrow> h | Some a \<Rightarrow> h\<lparr>imem := (imem h)(a \<mapsto> xs)\<rparr>)"

text \<open>Sequencing of steps that may fail, and one cell read or written through a pointer.\<close>

definition bindE :: "error + 'a \<Rightarrow> ('a \<Rightarrow> error + 'b) \<Rightarrow> error + 'b" where
  "bindE m f = (case m of Inl e \<Rightarrow> Inl e | Inr v \<Rightarrow> f v)"

definition peek_d :: "heap \<Rightarrow> addr option \<Rightarrow> int \<Rightarrow> error + real" where
  "peek_d h p i = bindE (deref_d h p) (\<lambda>xs. rd xs i)"

definition peek_i :: "heap \<Rightarrow> addr option \<Rightarrow> int \<Rightarrow> error + int" where
  "peek_i h p i = bindE (deref_i h p) (\<lambda>xs. rd xs i)"

definition poke_d :: "addr option \<Rightarrow> int \<Rightarrow> real \<Rightarrow> heap \<Rightarrow> error + heap" where
  "poke_d p i v h = bindE (deref_d h p) (\<lambda>xs. bindE (wr xs i v) (\<lambda>ys. Inr (store_d p ys h)))"

definition poke_i :: "addr option \<Rightarrow> int \<Rightarrow> int \<Rightarrow> heap \<Rightarrow> error + heap" where
  "poke_i p i v h = bindE (deref_i h p) (\<lambda>xs. bindE (wr xs i v) (\<lambda>ys. Inr (store_i p ys h)))"

text \<open>
  A \<open>const double *\<close> argument is either an array of the caller (the input state, given
  by its contents) or a pointer into the store (the output array of another layer).
\<close>

datatype dref = Arr "real list" | Ptr "addr option"

definition deref_r :: "heap \<Rightarrow> dref \<Rightarrow> error + real list" where
  "deref_r h r = (case r of Arr xs \<Rightarrow> Inr xs | Ptr p \<Rightarrow> deref_d h p)"

definition peek_r :: "heap \<Rightarrow> dref \<Rightarrow> int \<Rightarrow> error + real" where
  "peek_r h r i = bindE (deref_r h r) (\<lambda>xs. rd xs i)"

text \<open>\<open>memcpy\<close> and \<open>memset\<close> of \<open>n\<close> cells of \<open>double\<close> into the array behind \<open>p\<close>.\<close>

definition memcpy_d :: "addr option \<Rightarrow> dref \<Rightarrow> int \<Rightarrow> heap \<Rightarrow> error + heap" where
  "memcpy_d p r n h =
     bindE (deref_d h p) (\<lambda>dst.
     bindE (deref_r h r) (\<lambda>src.
       if 0 \<le> n \<and> nat n \<le> length src \<and> nat n \<le> length dst
       then Inr (store_d p (take (nat n) src @ drop (nat n) dst) h)
       else Inl Segv))"

definition memset0_d :: "addr option \<Rightarrow> int \<Rightarrow> heap \<Rightarrow> error + heap" where
  "memset0_d p n h =
     bindE (deref_d h p) (\<lambda>dst.
       if 0 \<le> n \<and> nat n \<le> length dst
       then Inr (store_d p (replicate (nat n) 0 @ drop (nat n) dst) h)
       else Inl Segv)"

text \<open>C division of \<open>int\<close> truncates towards zero; \<open>DBL_MAX\<close> is the largest finite double.\<close>

definition c_div :: "int \<Rightarrow> int \<Rightarrow> int" where
  "c_div a b = (if (a < 0) = (b < 0) then \<bar>a\<bar> div \<bar>b\<bar> else - (\<bar>a\<bar> div \<bar>b\<bar>))"

definition DBL_MAX :: real where
  "DBL_MAX = (2 ^ 53 - 1) * 2 ^ 971"

text \<open>
  A binary file is the sequence of elements written to it, each an \<open>int\<close> or a \<open>double\<close>,
  as \<open>fwrite(&v, sizeof v, 1, fp)\<close> appends them. \<open>fread\<close> of one element returns the
  number of elements read and, on success, stores the value; at the end of the file
  it stores nothing and returns 0, and the callers go on with the old value. Reading
  an \<open>int\<close> where a \<open>double\<close> was written cannot happen on what the save functions
  wrote; the model treats it as a failed read.
\<close>

datatype item = IntE int | DblE real

definition fread_int :: "int \<Rightarrow> item list \<Rightarrow> int \<times> nat \<times> item list" where
  "fread_int old fp = (case fp of IntE v # rest \<Rightarrow> (v, 1, rest) | _ \<Rightarrow> (old, 0, fp))"

definition fread_dbl :: "real \<Rightarrow> item list \<Rightarrow> real \<times> nat \<times> item list" where
  "fread_dbl old fp = (case fp of DblE v # rest \<Rightarrow> (v, 1, rest) | _ \<Rightarrow> (old, 0, fp))"

section \<open>Layers\<close>

text \<open>
  The fields of \<open>struct Layer\<close> that the dropout and max-pooling layers use. The virtual
  table pointer is a function of \<open>layer_type\<close> and is not a field of its own.
\<close>

record layer =
  layer_type :: int
  n_inputs :: int
  n_outputs :: int
  max_outputs :: int
  probability :: real
  scale :: real
  height :: int
  width :: int
  channels :: int
  pad :: int
  out_w :: int
  out_h :: int
  out_c :: int
  size :: int
  stride :: int
  "output" :: "addr option"
  delta :: "addr option"
  state :: "addr option"
  indexes :: "addr option"

text \<open>
  Modelled from the spec: the header that defines the layer type constants is not among
  the sources; the spec says only that the variant tags are the identifiers written to
  disk. The two constants the statements need are fixed as distinct integers; nothing
  below uses more than \<open>DROPOUT \<noteq> MAXPOOL\<close>.
\<close>

definition DROPOUT :: int where
  "DROPOUT = 1"

definition MAXPOOL :: int where
  "MAXPOOL = 6"

text \<open>
  What the sources use but do not contain is a parameter, collected in \<open>ext\<close>: the macros
  \<open>N_INPUTS_MAX\<close> and \<open>N_OUTPUTS_MAX\<close>; the struct \<open>layer_init\<close> leaves behind; the contents
  of a struct fresh from \<open>malloc\<close>; and, for the layer types whose sources are absent
  (connected, recurrent, ...), the entries of their virtual tables.
\<close>

record ext =
  N_INPUTS_MAX :: int
  N_OUTPUTS_MAX :: int
  layer_init :: layer
  uninitialised :: layer
  x_copy :: "layer \<Rightarrow> heap \<Rightarrow> error + layer \<times> heap"
  x_free :: "layer \<Rightarrow> heap \<Rightarrow> heap"
  x_mutate :: "layer \<Rightarrow> heap \<Rightarrow> bool \<times> layer \<times> heap"
  x_resize :: "layer \<Rightarrow> layer \<Rightarrow> heap \<Rightarrow> error + layer \<times> heap"
  x_output :: "layer \<Rightarrow> addr option"
  x_forward :: "xcsf \<Rightarrow> layer \<Rightarrow> dref \<Rightarrow> heap \<Rightarrow> error + heap"
  x_backward :: "layer \<Rightarrow> dref \<Rightarrow> addr option \<Rightarrow> heap \<Rightarrow> error + heap"
  x_update :: "layer \<Rightarrow> heap \<Rightarrow> error + heap"
  x_save :: "layer \<Rightarrow> item list \<Rightarrow> nat \<times> item list"
  x_load :: "layer \<Rightarrow> item list \<Rightarrow> heap \<Rightarrow> error + nat \<times> layer \<times> item list \<times> heap"

subsection \<open>Dropout layer (neural\_layer\_dropout.c)\<close>

text \<open>The static \<open>malloc_layer_arrays\<close> of the dropout file.\<close>

definition dropout_malloc_layer_arrays :: "ext \<Rightarrow> layer \<Rightarrow> heap \<Rightarrow> error + layer \<times> heap" where
  "dropout_malloc_layer_arrays E l h =
     (if n_inputs l < 1 \<or> N_INPUTS_MAX E < n_inputs l
      then Inl (Exit ''neural_layer_dropout: malloc() invalid size'')
      else (let (po, h1) = calloc_d (n_inputs l) h;
                (pd, h2) = calloc_d (n_inputs l) h1;
                (ps, h3) = calloc_d (n_inputs l) h2
            in Inr (l\<lparr>output := po, delta := pd, state := ps\<rparr>, h3)))"

definition neural_layer_dropout_init :: "ext \<Rightarrow> int \<Rightarrow> real \<Rightarrow> heap \<Rightarrow> error + layer \<times> heap" where
  "neural_layer_dropout_init E n p h =
     dropout_malloc_layer_arrays E
       ((layer_init E)\<lparr>layer_type := DROPOUT, n_inputs := n, n_outputs := n, max_outputs := n,
                       probability := p, scale := 1 / (1 - p)\<rparr>) h"


text \<open>
  \<open>neural_layer_dropout_forward\<close>. \<open>rnd i\<close> is the value the \<open>i\<close>-th call of
  \<open>rand_uniform(0, 1)\<close> returns during this pass.
\<close>

definition dropout_forward_step ::
  "(nat \<Rightarrow> real) \<Rightarrow> layer \<Rightarrow> dref \<Rightarrow> nat \<Rightarrow> heap \<Rightarrow> error + heap" where
  "dropout_forward_step rnd l input i h =
     bindE (poke_d (state l) (int i) (rnd i) h) (\<lambda>h1.
     bindE (peek_d h1 (state l) (int i)) (\<lambda>s.
       if s < probability l then poke_d (output l) (int i) 0 h1
       else bindE (peek_r h1 input (int i)) (\<lambda>x. poke_d (output l) (int i) (x * scale l) h1)))"

definition neural_layer_dropout_forward ::
  "xcsf \<Rightarrow> (nat \<Rightarrow> real) \<Rightarrow> layer \<Rightarrow> dref \<Rightarrow> heap \<Rightarrow> error + heap" where
  "neural_layer_dropout_forward X rnd l input h =
     (if \<not> explore X then memcpy_d (output l) input (n_inputs l) h
      else forE [0..<nat (n_inputs l)] (dropout_forward_step rnd l input) h)"

text \<open>\<open>neural_layer_dropout_backward\<close>; \<open>dp\<close> is the pointer \<open>delta\<close> of the caller.\<close>

definition dropout_backward_step :: "layer \<Rightarrow> addr option \<Rightarrow> nat \<Rightarrow> heap \<Rightarrow> error + heap" where
  "dropout_backward_step l dp i h =
     bindE (peek_d h (state l) (int i)) (\<lambda>s.
       if s < probability l then poke_d dp (int i) 0 h
       else bindE (peek_d h dp (int i)) (\<lambda>old.
            bindE (peek_d h (delta l) (int i)) (\<lambda>d.
              poke_d dp (int i) (old + d * scale l) h)))"

definition neural_layer_dropout_backward ::
  "layer \<Rightarrow> dref \<Rightarrow> addr option \<Rightarrow> heap \<Rightarrow> error + heap" where
  "neural_layer_dropout_backward l input dp h =
     (if dp \<noteq> None then forE [0..<nat (n_inputs l)] (dropout_backward_step l dp) h else Inr h)"

definition neural_layer_dropout_update :: "layer \<Rightarrow> heap \<Rightarrow> error + heap" where
  "neural_layer_dropout_update l h = Inr h"

definition neural_layer_dropout_mutate :: "layer \<Rightarrow> heap \<Rightarrow> bool \<times> layer \<times> heap" where
  "neural_layer_dropout_mutate l h = (False, l, h)"

definition neural_layer_dropout_resize :: "layer \<Rightarrow> layer \<Rightarrow> heap \<Rightarrow> error + layer \<times> heap" where
  "neural_layer_dropout_resize l prev h =
     (let l1 = l\<lparr>n_inputs := n_outputs prev, n_outputs := n_outputs prev,
                 max_outputs := n_outputs prev\<rparr>;
          (ps, h1) = realloc_d (state l1) (n_outputs l1) h;
          (po, h2) = realloc_d (output l1) (n_outputs l1) h1;
          (pd, h3) = realloc_d (delta l1) (n_outputs l1) h2
      in Inr (l1\<lparr>state := ps, output := po, delta := pd\<rparr>, h3))"

definition neural_layer_dropout_save :: "layer \<Rightarrow> item list \<Rightarrow> nat \<times> item list" where
  "neural_layer_dropout_save l fp =
     (5, fp @ [IntE (n_inputs l), IntE (n_outputs l), IntE (max_outputs l),
               DblE (probability l), DblE (scale l)])"

definition neural_layer_dropout_load ::
  "ext \<Rightarrow> layer \<Rightarrow> item list \<Rightarrow> heap \<Rightarrow> error + nat \<times> layer \<times> item list \<times> heap" where
  "neural_layer_dropout_load E l fp h =
     (let (a, s1, f1) = fread_int (n_inputs l) fp;
          (b, s2, f2) = fread_int (n_outputs l) f1;
          (c, s3, f3) = fread_int (max_outputs l) f2;
          (d, s4, f4) = fread_dbl (probability l) f3;
          (e, s5, f5) = fread_dbl (scale l) f4
      in bindE (dropout_malloc_layer_arrays E
                  (l\<lparr>n_inputs := a, n_outputs := b, max_outputs := c,
                     probability := d, scale := e\<rparr>) h)
           (\<lambda>(l', h'). Inr (s1 + s2 + s3 + s4 + s5, l', f5, h')))"

subsection \<open>Max-pooling layer (neural\_layer\_maxpool.c)\<close>

text \<open>The static \<open>malloc_layer_arrays\<close> of the max-pooling file.\<close>

definition maxpool_malloc_layer_arrays :: "ext \<Rightarrow> layer \<Rightarrow> heap \<Rightarrow> error + layer \<times> heap" where
  "maxpool_malloc_layer_arrays E l h =
     (if n_outputs l < 1 \<or> N_OUTPUTS_MAX E < n_outputs l
      then Inl (Exit ''neural_layer_maxpool: malloc() invalid size'')
      else (let (px, h1) = calloc_i (n_outputs l) h;
                (po, h2) = calloc_d (n_outputs l) h1;
                (pd, h3) = calloc_d (n_outputs l) h2
            in Inr (l\<lparr>indexes := px, output := po, delta := pd\<rparr>, h3)))"

definition neural_layer_maxpool_init ::
  "ext \<Rightarrow> int \<Rightarrow> int \<Rightarrow> int \<Rightarrow> int \<Rightarrow> int \<Rightarrow> int \<Rightarrow> heap \<Rightarrow> error + layer \<times> heap" where
  "neural_layer_maxpool_init E h w c sz strd pd hp =
     (if strd = 0 then Inl DivZero
      else (let ow = c_div (w + pd - sz) strd + 1;
                oh = c_div (h + pd - sz) strd + 1
            in maxpool_malloc_layer_arrays E
                 ((layer_init E)\<lparr>layer_type := MAXPOOL, height := h, width := w, channels := c,
                                 pad := pd, out_w := ow, out_h := oh, out_c := c,
                                 n_outputs := oh * ow * c, max_outputs := oh * ow * c,
                                 n_inputs := h * w * c, size := sz, stride := strd\<rparr>) hp))"


text \<open>
  \<open>max_pool\<close>: the pair carried through the two loops is \<open>(max, max_index)\<close>. The cell
  \<open>input[index]\<close> is read only after the four coordinate tests have passed.
\<close>

definition max_pool_cell ::
  "layer \<Rightarrow> heap \<Rightarrow> dref \<Rightarrow> int \<Rightarrow> int \<Rightarrow> int \<Rightarrow> nat \<Rightarrow> nat \<Rightarrow> real \<times> int \<Rightarrow> error + real \<times> int" where
  "max_pool_cell l h input i j k n m acc =
     (let w_offset = c_div (- pad l) 2;
          h_offset = w_offset;
          cur_h = h_offset + i * stride l + int n;
          cur_w = w_offset + j * stride l + int m;
          index = cur_w + width l * (cur_h + height l * k)
      in if 0 \<le> cur_h \<and> cur_h < height l \<and> 0 \<le> cur_w \<and> cur_w < width l
         then bindE (peek_r h input index) (\<lambda>v. if fst acc < v then Inr (v, index) else Inr acc)
         else Inr acc)"

definition max_pool :: "layer \<Rightarrow> heap \<Rightarrow> dref \<Rightarrow> int \<Rightarrow> int \<Rightarrow> int \<Rightarrow> error + int" where
  "max_pool l h input i j k =
     bindE (forE [0..<nat (size l)]
              (\<lambda>n. forE [0..<nat (size l)] (\<lambda>m. max_pool_cell l h input i j k n m))
              (- DBL_MAX, - 1))
       (\<lambda>acc. Inr (snd acc))"

definition maxpool_forward_cell ::
  "layer \<Rightarrow> dref \<Rightarrow> nat \<Rightarrow> nat \<Rightarrow> nat \<Rightarrow> heap \<Rightarrow> error + heap" where
  "maxpool_forward_cell l input k i j h =
     (let out_index = int j + out_w l * (int i + out_h l * int k)
      in bindE (max_pool l h input (int i) (int j) (int k)) (\<lambda>max_index.
         bindE (poke_i (indexes l) out_index max_index h) (\<lambda>h1.
         bindE (peek_r h1 input max_index) (\<lambda>v.
           poke_d (output l) out_index v h1))))"

definition neural_layer_maxpool_forward :: "layer \<Rightarrow> dref \<Rightarrow> heap \<Rightarrow> error + heap" where
  "neural_layer_maxpool_forward l input h =
     forE [0..<nat (channels l)]
       (\<lambda>k. forE [0..<nat (out_h l)]
         (\<lambda>i. forE [0..<nat (out_w l)] (\<lambda>j. maxpool_forward_cell l input k i j))) h"

definition maxpool_backward_step :: "layer \<Rightarrow> addr option \<Rightarrow> nat \<Rightarrow> heap \<Rightarrow> error + heap" where
  "maxpool_backward_step l dp i h =
     bindE (peek_i h (indexes l) (int i)) (\<lambda>ix.
     bindE (peek_d h (delta l) (int i)) (\<lambda>d.
     bindE (peek_d h dp ix) (\<lambda>old.
       poke_d dp ix (old + d) h)))"

definition neural_layer_maxpool_backward ::
  "layer \<Rightarrow> dref \<Rightarrow> addr option \<Rightarrow> heap \<Rightarrow> error + heap" where
  "neural_layer_maxpool_backward l input dp h =
     (if dp \<noteq> None then forE [0..<nat (n_outputs l)] (maxpool_backward_step l dp) h else Inr h)"

definition neural_layer_maxpool_update :: "layer \<Rightarrow> heap \<Rightarrow> error + heap" where
  "neural_layer_maxpool_update l h = Inr h"

definition neural_layer_maxpool_mutate :: "layer \<Rightarrow> heap \<Rightarrow> bool \<times> layer \<times> heap" where
  "neural_layer_maxpool_mutate l h = (False, l, h)"

definition neural_layer_maxpool_resize :: "layer \<Rightarrow> layer \<Rightarrow> heap \<Rightarrow> error + layer \<times> heap" where
  "neural_layer_maxpool_resize l prev hp =
     (let w = out_w prev; h = out_h prev; c = out_c prev in
      if stride l = 0 then Inl DivZero
      else (let ow = c_div (w + pad l - size l) (stride l) + 1;
                oh = c_div (h + pad l - size l) (stride l) + 1;
                l1 = l\<lparr>height := h, width := w, channels := c, n_inputs := h * w * c,
                       out_w := ow, out_h := oh, out_c := c,
                       n_outputs := oh * ow * c, max_outputs := oh * ow * c\<rparr>;
                (px, h1) = realloc_i (indexes l1) (n_outputs l1) hp;
                (po, h2) = realloc_d (output l1) (n_outputs l1) h1;
                (pd, h3) = realloc_d (delta l1) (n_outputs l1) h2
            in Inr (l1\<lparr>indexes := px, output := po, delta := pd\<rparr>, h3)))"

definition neural_layer_maxpool_save :: "layer \<Rightarrow> item list \<Rightarrow> nat \<times> item list" where
  "neural_layer_maxpool_save l fp =
     (12, fp @ [IntE (height l), IntE (width l), IntE (channels l), IntE (pad l),
                IntE (out_w l), IntE (out_h l), IntE (out_c l), IntE (n_outputs l),
                IntE (max_outputs l), IntE (n_inputs l), IntE (size l), IntE (stride l)])"

definition neural_layer_maxpool_load ::
  "ext \<Rightarrow> layer \<Rightarrow> item list \<Rightarrow> heap \<Rightarrow> error + nat \<times> layer \<times> item list \<times> heap" where
  "neural_layer_maxpool_load E l fp h =
     (let (v1, s1, f1) = fread_int (height l) fp;
          (v2, s2, f2) = fread_int (width l) f1;
          (v3, s3, f3) = fread_int (channels l) f2;
          (v4, s4, f4) = fread_int (pad l) f3;
          (v5, s5, f5) = fread_int (out_w l) f4;
          (v6, s6, f6) = fread_int (out_h l) f5;
          (v7, s7, f7) = fread_int (out_c l) f6;
          (v8, s8, f8) = fread_int (n_outputs l) f7;
          (v9, s9, f9) = fread_int (max_outputs l) f8;
          (v10, s10, f10) = fread_int (n_inputs l) f9;
          (v11, s11, f11) = fread_int (size l) f10;
          (v12, s12, f12) = fread_int (stride l) f11
      in bindE (maxpool_malloc_layer_arrays E
                  (l\<lparr>height := v1, width := v2, channels := v3, pad := v4, out_w := v5,
                     out_h := v6, out_c := v7, n_outputs := v8, max_outputs := v9,
                     n_inputs := v10, size := v11, stride := v12\<rparr>) h)
           (\<lambda>(l', h'). Inr (s1 + s2 + s3 + s4 + s5 + s6 + s7 + s8 + s9 + s10 + s11 + s12,
                            l', f12, h')))"

subsection \<open>Dispatch through the virtual table (neural\_layer.h)\<close>

text \<open>\<open>neural_layer_dropout_free\<close>, \<open>neural_layer_maxpool_free\<close> and the dispatch \<open>layer_free\<close>.\<close>

definition neural_layer_dropout_free :: "layer \<Rightarrow> heap \<Rightarrow> heap" where
  "neural_layer_dropout_free l h = free_d (state l) (free_d (delta l) (free_d (output l) h))"

definition neural_layer_maxpool_free :: "layer \<Rightarrow> heap \<Rightarrow> heap" where
  "neural_layer_maxpool_free l h = free_d (delta l) (free_d (output l) (free_i (indexes l) h))"

definition layer_free :: "ext \<Rightarrow> layer \<Rightarrow> heap \<Rightarrow> heap" where
  "layer_free E l h =
     (if layer_type l = DROPOUT then neural_layer_dropout_free l h
      else if layer_type l = MAXPOOL then neural_layer_maxpool_free l h
      else x_free E l h)"

text \<open>\<open>neural_layer_dropout_output\<close>, \<open>neural_layer_maxpool_output\<close> and \<open>layer_output\<close>.\<close>

definition layer_output :: "ext \<Rightarrow> layer \<Rightarrow> addr option" where
  "layer_output E l =
     (if layer_type l = DROPOUT then output l
      else if layer_type l = MAXPOOL then output l
      else x_output E l)"


definition layer_mutate :: "ext \<Rightarrow> layer \<Rightarrow> heap \<Rightarrow> bool \<times> layer \<times> heap" where
  "layer_mutate E l h =
     (if layer_type l = DROPOUT then neural_layer_dropout_mutate l h
      else if layer_type l = MAXPOOL then neural_layer_maxpool_mutate l h
      else x_mutate E l h)"

definition layer_resize :: "ext \<Rightarrow> layer \<Rightarrow> layer \<Rightarrow> heap \<Rightarrow> error + layer \<times> heap" where
  "layer_resize E l prev h =
     (if layer_type l = DROPOUT then neural_layer_dropout_resize l prev h
      else if layer_type l = MAXPOOL then neural_layer_maxpool_resize l prev h
      else x_resize E l prev h)"

definition layer_forward ::
  "ext \<Rightarrow> xcsf \<Rightarrow> (nat \<Rightarrow> real) \<Rightarrow> layer \<Rightarrow> dref \<Rightarrow> heap \<Rightarrow> error + heap" where
  "layer_forward E X rnd l input h =
     (if layer_type l = DROPOUT then neural_layer_dropout_forward X rnd l input h
      else if layer_type l = MAXPOOL then neural_layer_maxpool_forward l input h
      else x_forward E X l input h)"

definition layer_backward ::
  "ext \<Rightarrow> layer \<Rightarrow> dref \<Rightarrow> addr option \<Rightarrow> heap \<Rightarrow> error + heap" where
  "layer_backward E l input dp h =
     (if layer_type l = DROPOUT then neural_layer_dropout_backward l input dp h
      else if layer_type l = MAXPOOL then neural_layer_maxpool_backward l input dp h
      else x_backward E l input dp h)"

definition layer_update :: "ext \<Rightarrow> layer \<Rightarrow> heap \<Rightarrow> error + heap" where
  "layer_update E l h =
     (if layer_type l = DROPOUT then neural_layer_dropout_update l h
      else if layer_type l = MAXPOOL then neural_layer_maxpool_update l h
      else x_update E l h)"

definition layer_save :: "ext \<Rightarrow> layer \<Rightarrow> item list \<Rightarrow> nat \<times> item list" where
  "layer_save E l fp =
     (if layer_type l = DROPOUT then neural_layer_dropout_save l fp
      else if layer_type l = MAXPOOL then neural_layer_maxpool_save l fp
      else x_save E l fp)"

definition layer_load ::
  "ext \<Rightarrow> layer \<Rightarrow> item list \<Rightarrow> heap \<Rightarrow> error + nat \<times> layer \<times> item list \<times> heap" where
  "layer_load E l fp h =
     (if layer_type l = DROPOUT then neural_layer_dropout_load E l fp h
      else if layer_type l = MAXPOOL then neural_layer_maxpool_load E l fp h
      else x_load E l fp h)"

section \<open>Networks (neural.c)\<close>

text \<open>
  \<open>struct NET\<close>. The doubly linked list of layers is the list \<open>layers\<close>, written from
  \<open>net->tail\<close> (the input side, position 0) to \<open>net->head\<close> (the output side): following
  \<open>prev\<close> moves one position up, following \<open>next\<close> one position down, and \<open>head\<close> and
  \<open>tail\<close> are \<open>NULL\<close> exactly when the list is empty. A list node is named by its
  position. The counters and the \<open>output\<close> pointer of the struct are fields of their own.
\<close>

record net =
  layers :: "layer list"
  n_layers :: int
  net_n_inputs :: int
  net_n_outputs :: int
  net_output :: "addr option"

definition neural_init :: "net \<Rightarrow> net" where
  "neural_init net =
     net\<lparr>layers := [], n_layers := 0, net_n_inputs := 0, net_n_outputs := 0, net_output := None\<rparr>"

text \<open>
  The search loop \<open>for (i = 0; i < p && iter != NULL; ++i) iter = iter->prev\<close> over a list
  of \<open>n\<close> nodes: \<open>walk n p iter\<close>.
\<close>

fun walk :: "nat \<Rightarrow> nat \<Rightarrow> nat option \<Rightarrow> nat option" where
  "walk n 0 iter = iter"
| "walk n (Suc k) None = None"
| "walk n (Suc k) (Some i) = walk n k (if Suc i < n then Some (Suc i) else None)"

definition tail_node :: "layer list \<Rightarrow> nat option" where
  "tail_node ls = (if ls = [] then None else Some 0)"

text \<open>
  \<open>neural_layer_insert\<close>. In a non-empty list the new node gets \<open>prev = iter\<close>.
  With \<open>iter == NULL\<close> it becomes the head. Otherwise it is linked below \<open>iter\<close>:
  \<open>new->next = iter->next; iter->next = new;\<close> and then the source tests
  \<open>iter->next == NULL\<close>, which is the node just stored and never null, so the branch
  that moves \<open>net->tail\<close> is never taken and \<open>new->next->prev = new\<close> runs. When \<open>iter\<close>
  was the tail (position 0), \<open>new->next\<close> is \<open>NULL\<close> and that store goes through a null
  pointer.
\<close>

definition neural_layer_insert :: "net \<Rightarrow> layer \<Rightarrow> int \<Rightarrow> error + net" where
  "neural_layer_insert net l p =
     (let ls = layers net in
      if ls = []
      then Inr (net\<lparr>layers := [l], n_layers := n_layers net + 1, net_n_inputs := n_inputs l,
                    net_n_outputs := n_outputs l, net_output := output l\<rparr>)
      else (case walk (length ls) (nat p) (tail_node ls) of
              None \<Rightarrow> Inr (net\<lparr>layers := ls @ [l], n_layers := n_layers net + 1,
                               net_n_outputs := n_outputs l, net_output := output l\<rparr>)
            | Some i \<Rightarrow>
                if i = 0 then Inl Segv
                else Inr (net\<lparr>layers := take i ls @ l # drop i ls,
                              n_layers := n_layers net + 1\<rparr>)))"

text \<open>
  \<open>neural_layer_remove\<close>. \<open>iter->prev == NULL\<close> holds at the last position,
  \<open>iter->next == NULL\<close> at position 0. Only the head case rewrites fields of the net.
\<close>

definition neural_layer_remove :: "ext \<Rightarrow> net \<Rightarrow> int \<Rightarrow> heap \<Rightarrow> error + net \<times> heap" where
  "neural_layer_remove E net p h =
     (let ls = layers net in
      case walk (length ls) (nat p) (tail_node ls) of
        None \<Rightarrow> Inl (Exit ''neural_layer_remove(): error finding layer to remove'')
      | Some i \<Rightarrow>
          if i = 0 \<and> Suc i = length ls
          then Inl (Exit ''neural_layer_remove(): attempted to remove the only layer'')
          else
            (let net1 = (if Suc i = length ls
                         then net\<lparr>net_output := output (ls ! (i - 1)),
                                  net_n_outputs := n_outputs (ls ! (i - 1))\<rparr>
                         else net)
             in Inr (net1\<lparr>layers := take i ls @ drop (Suc i) ls, n_layers := n_layers net - 1\<rparr>,
                     layer_free E (ls ! i) h)))"




text \<open>
  \<open>neural_mutate\<close>: the loop from the tail carries \<open>prev\<close>, \<open>do_resize\<close> and \<open>mod\<close> (here \<open>modified\<close>); the list
  returned holds the layers as the loop leaves them. The fields of the net are not
  written.
\<close>

fun mutate_loop ::
  "ext \<Rightarrow> layer list \<Rightarrow> layer option \<Rightarrow> bool \<Rightarrow> bool \<Rightarrow> heap \<Rightarrow> error + bool \<times> layer list \<times> heap" where
  "mutate_loop E [] prev do_resize modified h = Inr (modified, [], h)"
| "mutate_loop E (l # ls) prev do_resize modified h =
     bindE (if do_resize
            then (case prev of None \<Rightarrow> Inl Segv | Some q \<Rightarrow> layer_resize E l q h)
            else Inr (l, h)) (\<lambda>(l1, h1).
       let orig_outputs = n_outputs l1;
           (changed, l2, h2) = layer_mutate E l1 h1
       in bindE (mutate_loop E ls (Some l2) (changed \<and> n_outputs l2 \<noteq> orig_outputs)
                   (modified \<or> changed) h2)
            (\<lambda>(modified', ls', h'). Inr (modified', l2 # ls', h')))"

definition neural_mutate :: "ext \<Rightarrow> net \<Rightarrow> heap \<Rightarrow> error + bool \<times> net \<times> heap" where
  "neural_mutate E net h =
     bindE (mutate_loop E (layers net) None False False h)
       (\<lambda>(modified, ls, h'). Inr (modified, net\<lparr>layers := ls\<rparr>, h'))"

text \<open>
  \<open>neural_propagate\<close>: \<open>input\<close> is the caller's array for the tail and the output array of
  the layer below for every other layer. \<open>rnd k\<close> is the stream of random draws of the
  layer at position \<open>k\<close>.
\<close>

fun propagate_loop ::
  "ext \<Rightarrow> xcsf \<Rightarrow> (nat \<Rightarrow> nat \<Rightarrow> real) \<Rightarrow> nat \<Rightarrow> layer list \<Rightarrow> dref \<Rightarrow> heap \<Rightarrow> error + heap" where
  "propagate_loop E X rnd k [] input h = Inr h"
| "propagate_loop E X rnd k (l # ls) input h =
     bindE (layer_forward E X (rnd k) l input h) (\<lambda>h1.
       propagate_loop E X rnd (Suc k) ls (Ptr (layer_output E l)) h1)"

definition neural_propagate ::
  "ext \<Rightarrow> xcsf \<Rightarrow> (nat \<Rightarrow> nat \<Rightarrow> real) \<Rightarrow> net \<Rightarrow> real list \<Rightarrow> heap \<Rightarrow> error + heap" where
  "neural_propagate E X rnd net input h = propagate_loop E X rnd 0 (layers net) (Arr input) h"

text \<open>
  \<open>neural_learn\<close>, its four loops in turn. The backward loop starts at the head and
  follows \<open>next\<close>, so it runs over the reversed list; the layer with \<open>iter->next == NULL\<close>
  is the last one it meets.
\<close>

fun reset_deltas :: "layer list \<Rightarrow> heap \<Rightarrow> error + heap" where
  "reset_deltas [] h = Inr h"
| "reset_deltas (l # ls) h = bindE (memset0_d (delta l) (n_outputs l) h) (reset_deltas ls)"

definition output_error_step :: "layer \<Rightarrow> real list \<Rightarrow> nat \<Rightarrow> heap \<Rightarrow> error + heap" where
  "output_error_step p truth i h =
     bindE (rd truth (int i)) (\<lambda>t.
     bindE (peek_d h (output p) (int i)) (\<lambda>out.
       poke_d (delta p) (int i) (t - out) h))"

definition output_error :: "layer \<Rightarrow> real list \<Rightarrow> heap \<Rightarrow> error + heap" where
  "output_error p truth h = forE [0..<nat (n_outputs p)] (output_error_step p truth) h"

fun backward_loop :: "ext \<Rightarrow> layer list \<Rightarrow> real list \<Rightarrow> heap \<Rightarrow> error + heap" where
  "backward_loop E [] input h = Inr h"
| "backward_loop E [l] input h = layer_backward E l (Arr input) None h"
| "backward_loop E (l # prev # rest) input h =
     bindE (layer_backward E l (Ptr (output prev)) (delta prev) h)
       (backward_loop E (prev # rest) input)"

fun update_loop :: "ext \<Rightarrow> layer list \<Rightarrow> heap \<Rightarrow> error + heap" where
  "update_loop E [] h = Inr h"
| "update_loop E (l # ls) h = bindE (layer_update E l h) (update_loop E ls)"

definition neural_learn :: "ext \<Rightarrow> net \<Rightarrow> real list \<Rightarrow> real list \<Rightarrow> heap \<Rightarrow> error + heap" where
  "neural_learn E net truth input h =
     bindE (reset_deltas (layers net) h) (\<lambda>h1.
       if layers net = [] then Inl Segv
       else bindE (output_error (last (layers net)) truth h1) (\<lambda>h2.
            bindE (backward_loop E (rev (layers net)) input h2) (\<lambda>h3.
              update_loop E (layers net) h3)))"

text \<open>\<open>neural_save\<close> and \<open>neural_load\<close>.\<close>

fun save_loop :: "ext \<Rightarrow> layer list \<Rightarrow> nat \<times> item list \<Rightarrow> nat \<times> item list" where
  "save_loop E [] acc = acc"
| "save_loop E (l # ls) (s, fp) =
     (let (s1, fp1) = layer_save E l (fp @ [IntE (layer_type l)])
      in save_loop E ls (s + 1 + s1, fp1))"

definition neural_save :: "ext \<Rightarrow> net \<Rightarrow> item list \<Rightarrow> nat \<times> item list" where
  "neural_save E net fp =
     save_loop E (layers net)
       (3, fp @ [IntE (n_layers net), IntE (net_n_inputs net), IntE (net_n_outputs net)])"

definition load_step ::
  "ext \<Rightarrow> nat \<Rightarrow> nat \<times> net \<times> item list \<times> heap \<Rightarrow> error + nat \<times> net \<times> item list \<times> heap" where
  "load_step E i acc =
     (case acc of (s, net, fp, h) \<Rightarrow>
        (let (t, s1, fp1) = fread_int (layer_type (uninitialised E)) fp
         in bindE (layer_load E ((uninitialised E)\<lparr>layer_type := t\<rparr>) fp1 h) (\<lambda>(s2, l, fp2, h2).
            bindE (neural_layer_insert net l (int i)) (\<lambda>net'.
              Inr (s + s1 + s2, net', fp2, h2)))))"

definition neural_load ::
  "ext \<Rightarrow> net \<Rightarrow> item list \<Rightarrow> heap \<Rightarrow> error + nat \<times> net \<times> item list \<times> heap" where
  "neural_load E net fp h =
     (let (nlayers, s1, fp1) = fread_int 0 fp;
          (ninputs, s2, fp2) = fread_int 0 fp1;
          (noutputs, s3, fp3) = fread_int 0 fp2
      in forE [0..<nat nlayers] (load_step E) (s1 + s2 + s3, neural_init net, fp3, h))"

section \<open>Example values\<close>

text \<open>Concrete structs, stores and parameters on which the statements below are tried.\<close>

definition zero_layer :: layer where
  "zero_layer =
     \<lparr>layer_type = 0, n_inputs = 0, n_outputs = 0, max_outputs = 0, probability = 0,
      scale = 0, height = 0, width = 0, channels = 0, pad = 0, out_w = 0, out_h = 0,
      out_c = 0, size = 0, stride = 0, output = None, delta = None, state = None,
      indexes = None\<rparr>"

definition empty_heap :: heap where
  "empty_heap = \<lparr>dmem = Map.empty, imem = Map.empty, brk = 0\<rparr>"

definition empty_net :: net where
  "empty_net = \<lparr>layers = [], n_layers = 0, net_n_inputs = 0, net_n_outputs = 0, net_output = None\<rparr>"

text \<open>
  Parameters in which every absent layer type does nothing, except that its mutation
  adds one neuron (as a connected layer may).
\<close>

definition grow :: "layer \<Rightarrow> heap \<Rightarrow> bool \<times> layer \<times> heap" where
  "grow l h = (True, l\<lparr>n_outputs := n_outputs l + 1\<rparr>, h)"

definition ex_ext :: ext where
  "ex_ext =
     \<lparr>N_INPUTS_MAX = 1000, N_OUTPUTS_MAX = 1000, layer_init = zero_layer,
      uninitialised = zero_layer,
      x_copy = (\<lambda>l h. Inr (l, h)), x_free = (\<lambda>l h. h), x_mutate = grow,
      x_resize = (\<lambda>l prev h. Inr (l, h)), x_output = output,
      x_forward = (\<lambda>X l r h. Inr h), x_backward = (\<lambda>l r dp h. Inr h),
      x_update = (\<lambda>l h. Inr h), x_save = (\<lambda>l fp. (0, fp)),
      x_load = (\<lambda>l fp h. Inr (0, l, fp, h))\<rparr>"

text \<open>
  A max-pooling layer over a 2 x 2 x 1 input with one window (4 inputs, 1 output) and
  a dropout layer of width 1 above it, with their arrays in \<open>ex_heap\<close>.
\<close>

definition ex_maxpool :: layer where
  "ex_maxpool =
     zero_layer\<lparr>layer_type := MAXPOOL, height := 2, width := 2, channels := 1, pad := 0,
                out_w := 1, out_h := 1, out_c := 1, n_outputs := 1, max_outputs := 1,
                n_inputs := 4, size := 2, stride := 1,
                indexes := Some 0, output := Some 1, delta := Some 2\<rparr>"

definition ex_dropout :: layer where
  "ex_dropout =
     zero_layer\<lparr>layer_type := DROPOUT, n_inputs := 1, n_outputs := 1, max_outputs := 1,
                probability := 1 / 2, scale := 2,
                output := Some 3, delta := Some 4, state := Some 5\<rparr>"

definition ex_heap :: heap where
  "ex_heap =
     \<lparr>dmem = [1 \<mapsto> [7], 2 \<mapsto> [0], 3 \<mapsto> [7], 4 \<mapsto> [0], 5 \<mapsto> [0]],
      imem = [0 \<mapsto> [3]], brk = 6\<rparr>"

definition ex_net1 :: net where
  "ex_net1 =
     \<lparr>layers = [ex_maxpool], n_layers = 1, net_n_inputs = 4, net_n_outputs = 1,
      net_output = Some 1\<rparr>"

definition ex_net2 :: net where
  "ex_net2 =
     \<lparr>layers = [ex_maxpool, ex_dropout], n_layers = 2, net_n_inputs = 4, net_n_outputs = 1,
      net_output = Some 3\<rparr>"

section \<open>Consistency of the bookkeeping fields\<close>

text \<open>
  \<open>head_inv\<close>: the layer count is the length of the list, and the output fields of the
  net are those of the head layer. \<open>tail_inv\<close>: the input width of the net is that of
  the tail layer.
\<close>

definition head_inv :: "net \<Rightarrow> bool" where
  "head_inv net =
     (n_layers net = int (length (layers net)) \<and>
      (layers net = [] \<or>
       (net_n_outputs net = n_outputs (last (layers net)) \<and>
        net_output net = output (last (layers net)))))"

definition tail_inv :: "net \<Rightarrow> bool" where
  "tail_inv net = (layers net = [] \<or> net_n_inputs net = n_inputs (hd (layers net)))"

section \<open>Predicates on max-pooling layers and their inputs\<close>

text \<open>
  \<open>cur_pos l i n\<close> is \<open>cur_h\<close> of \<open>max_pool\<close> for output row \<open>i\<close> and window row \<open>n\<close>, and
  \<open>cur_w\<close> for output column \<open>i\<close> and window column \<open>n\<close> (both offsets are \<open>-pad / 2\<close>).
  \<open>window_hits l i j\<close>: the window of output cell \<open>(i, j)\<close> contains a grid position
  inside the input. \<open>windows_ok\<close>: every window of the layer does. \<open>finite_doubles\<close>:
  every cell is a finite double.
\<close>

definition cur_pos :: "layer \<Rightarrow> int \<Rightarrow> nat \<Rightarrow> int" where
  "cur_pos l i n = c_div (- pad l) 2 + i * stride l + int n"

definition in_grid :: "layer \<Rightarrow> int \<Rightarrow> int \<Rightarrow> nat \<Rightarrow> nat \<Rightarrow> bool" where
  "in_grid l i j n m =
     (0 \<le> cur_pos l i n \<and> cur_pos l i n < height l \<and>
      0 \<le> cur_pos l j m \<and> cur_pos l j m < width l)"

definition window_hits :: "layer \<Rightarrow> int \<Rightarrow> int \<Rightarrow> bool" where
  "window_hits l i j =
     list_ex (\<lambda>n. list_ex (\<lambda>m. in_grid l i j n m) [0..<nat (size l)]) [0..<nat (size l)]"

definition windows_ok :: "layer \<Rightarrow> bool" where
  "windows_ok l =
     list_all (\<lambda>i. list_all (\<lambda>j. window_hits l (int i) (int j)) [0..<nat (out_w l)])
       [0..<nat (out_h l)]"

definition finite_doubles :: "real list \<Rightarrow> bool" where
  "finite_doubles xs = list_all (\<lambda>x. - DBL_MAX \<le> x \<and> x \<le> DBL_MAX) xs"

definition out_index :: "layer \<Rightarrow> nat \<Rightarrow> nat \<Rightarrow> nat \<Rightarrow> int" where
  "out_index l k i j = int j + out_w l * (int i + out_h l * int k)"

text \<open>A 1 x 1 max-pooling layer with its arrays in \<open>ex_heap\<close>.\<close>

definition ex_maxpool1 :: layer where
  "ex_maxpool1 =
     zero_layer\<lparr>layer_type := MAXPOOL, height := 1, width := 1, channels := 1, pad := 0,
                out_w := 1, out_h := 1, out_c := 1, n_outputs := 1, max_outputs := 1,
                n_inputs := 1, size := 1, stride := 1,
                indexes := Some 0, output := Some 1, delta := Some 2\<rparr>"

text \<open>
  Invariants of the loops. \<open>pool_inv\<close>, for the pair \<open>(max, max_index)\<close> of \<open>max_pool\<close>:
  either nothing inside the grid has been visited and the pair is still the initial
  one, or \<open>max_index\<close> is an index of the input. \<open>pool_heap_inv\<close>, for the store during
  the forward pass: both arrays of the layer are live with \<open>len\<close> cells, the input still
  reads as \<open>xs\<close>, and the cells of \<open>indexes\<close> in \<open>S\<close> hold indices of the input.
\<close>

definition pool_inv :: "layer \<Rightarrow> bool \<Rightarrow> real \<times> int \<Rightarrow> bool" where
  "pool_inv l vis acc =
     ((snd acc = - 1 \<and> fst acc = - DBL_MAX \<and> \<not> vis) \<or> (0 \<le> snd acc \<and> snd acc < n_inputs l))"

definition pool_heap_inv ::
  "layer \<Rightarrow> dref \<Rightarrow> real list \<Rightarrow> addr \<Rightarrow> addr \<Rightarrow> nat \<Rightarrow> nat set \<Rightarrow> heap \<Rightarrow> bool" where
  "pool_heap_inv l input xs a b len S h =
     (\<exists>ix out. imem h a = Some ix \<and> length ix = len \<and> dmem h b = Some out \<and>
        length out = len \<and> deref_r h input = Inr xs \<and>
        (\<forall>c\<in>S. 0 \<le> ix ! c \<and> ix ! c < n_inputs l))"

section \<open>Consistency of the layer widths\<close>

text \<open>Every layer takes as many inputs as the layer below it puts out.\<close>

fun widths_consistent :: "layer list \<Rightarrow> bool" where
  "widths_consistent [] = True"
| "widths_consistent [l] = True"
| "widths_consistent (l # l' # ls) = (n_inputs l' = n_outputs l \<and> widths_consistent (l' # ls))"

text \<open>
  A net of three layers: a layer of an absent type (2 inputs, 3 outputs), a dropout
  layer of width 3, and a layer of an absent type (3 inputs, 1 output).
\<close>

definition ex_net3 :: net where
  "ex_net3 =
     \<lparr>layers = [zero_layer\<lparr>n_inputs := 2, n_outputs := 3\<rparr>,
                ex_dropout\<lparr>n_inputs := 3, n_outputs := 3, max_outputs := 3\<rparr>,
                zero_layer\<lparr>n_inputs := 3, n_outputs := 1\<rparr>],
      n_layers = 3, net_n_inputs = 2, net_n_outputs = 1, net_output = None\<rparr>"

section \<open>Predicates on copies\<close>

text \<open>
  \<open>same_config\<close>: two layers agree in type and in the configuration fields of that type.
  \<open>dbufs\<close> and \<open>ibufs\<close>: the addresses of the arrays a layer owns (a dropout layer has no
  \<open>indexes\<close>, a max-pooling layer no \<open>state\<close>). \<open>allocatable\<close>: the
  sizes pass the guard of \<open>malloc_layer_arrays\<close>, and a dropout layer is as wide at its
  output as at its input (as \<open>init\<close>, \<open>copy\<close> and \<open>resize\<close> all leave it).
\<close>

definition same_config :: "layer \<Rightarrow> layer \<Rightarrow> bool" where
  "same_config l l' =
     (layer_type l' = layer_type l \<and>
      (if layer_type l = DROPOUT
       then n_inputs l' = n_inputs l \<and> n_outputs l' = n_outputs l \<and>
            max_outputs l' = max_outputs l \<and> probability l' = probability l \<and>
            scale l' = scale l
       else height l' = height l \<and> width l' = width l \<and> channels l' = channels l \<and>
            pad l' = pad l \<and> out_w l' = out_w l \<and> out_h l' = out_h l \<and>
            out_c l' = out_c l \<and> n_outputs l' = n_outputs l \<and>
            max_outputs l' = max_outputs l \<and> n_inputs l' = n_inputs l \<and>
            size l' = size l \<and> stride l' = stride l))"

definition dbufs :: "layer \<Rightarrow> addr set" where
  "dbufs l =
     set_option (output l) \<union> set_option (delta l) \<union>
     (if layer_type l = DROPOUT then set_option (state l) else {})"

definition ibufs :: "layer \<Rightarrow> addr set" where
  "ibufs l = (if layer_type l = MAXPOOL then set_option (indexes l) else {})"


section \<open>Predicates on saved nets\<close>

text \<open>
  \<open>sizes_ok\<close>: the layer is a dropout or a max-pooling layer whose size passes the guard
  of its \<open>malloc_layer_arrays\<close>.
\<close>

definition sizes_ok :: "ext \<Rightarrow> layer \<Rightarrow> bool" where
  "sizes_ok E l =
     ((layer_type l = DROPOUT \<and> 1 \<le> n_inputs l \<and> n_inputs l \<le> N_INPUTS_MAX E) \<or>
      (layer_type l = MAXPOOL \<and> 1 \<le> n_outputs l \<and> n_outputs l \<le> N_OUTPUTS_MAX E))"

section \<open>The learning step, as the specification words it\<close>

text \<open>
  \<open>seqE\<close> runs a list of steps in order. \<open>learn_calls\<close> lists the calls the specification
  asks of one learning step after the deltas are set: one \<open>layer_backward\<close> per layer, from
  the head at position \<open>n - 1\<close> down to the tail at position 0, each layer given the
  output and delta arrays of the layer below it and the tail given the raw input and no
  delta array; then one \<open>layer_update\<close> per layer.
\<close>

fun seqE :: "('s \<Rightarrow> error + 's) list \<Rightarrow> 's \<Rightarrow> error + 's" where
  "seqE [] s = Inr s"
| "seqE (f # fs) s = bindE (f s) (seqE fs)"

definition backward_call :: "ext \<Rightarrow> layer list \<Rightarrow> real list \<Rightarrow> nat \<Rightarrow> heap \<Rightarrow> error + heap" where
  "backward_call E ls input k =
     (if k = 0 then layer_backward E (ls ! 0) (Arr input) None
      else layer_backward E (ls ! k) (Ptr (output (ls ! (k - 1)))) (delta (ls ! (k - 1))))"

definition learn_calls :: "ext \<Rightarrow> layer list \<Rightarrow> real list \<Rightarrow> (heap \<Rightarrow> error + heap) list" where
  "learn_calls E ls input =
     map (backward_call E ls input) (rev [0..<length ls]) @
     map (\<lambda>k. layer_update E (ls ! k)) [0..<length ls]"

text \<open>
  \<open>delta_ok\<close>: the delta array of the layer is live and holds at least \<open>n_outputs\<close> cells.
  \<open>delta_zero\<close>: it is live and its first \<open>n_outputs\<close> cells are 0.
\<close>

definition delta_ok :: "heap \<Rightarrow> layer \<Rightarrow> bool" where
  "delta_ok h l =
     (\<exists>a d. delta l = Some a \<and> dmem h a = Some d \<and> 0 \<le> n_outputs l \<and>
        nat (n_outputs l) \<le> length d)"

definition delta_zero :: "heap \<Rightarrow> layer \<Rightarrow> bool" where
  "delta_zero h l =
     (\<exists>a d. delta l = Some a \<and> dmem h a = Some d \<and> nat (n_outputs l) \<le> length d \<and>
        (\<forall>i<nat (n_outputs l). d ! i = 0))"

text \<open>
  \<open>keeps_zeros h h1\<close>: every array of \<open>double\<close> live in \<open>h\<close> is live in \<open>h1\<close> with the same
  length, and its cells that were 0 are still 0.
\<close>

definition keeps_zeros :: "heap \<Rightarrow> heap \<Rightarrow> bool" where
  "keeps_zeros h h1 =
     (\<forall>a d. dmem h a = Some d \<longrightarrow>
        (\<exists>d1. dmem h1 a = Some d1 \<and> length d1 = length d \<and>
           (\<forall>i<length d. d ! i = 0 \<longrightarrow> d1 ! i = 0)))"

section \<open>Well-formed layers in a store\<close>

text \<open>
  \<open>shape\<close>: which addresses are live and how long their arrays are. \<open>layer_wf\<close>: the
  arrays the forward pass of the layer writes are live and as long as
  \<open>malloc_layer_arrays\<close> makes them, and a max-pooling layer has as many outputs as its
  output grid has cells.
\<close>

definition shape :: "heap \<Rightarrow> (addr \<Rightarrow> nat option) \<times> (addr \<Rightarrow> nat option)" where
  "shape h = (\<lambda>a. map_option length (dmem h a), \<lambda>a. map_option length (imem h a))"

definition layer_wf :: "heap \<Rightarrow> layer \<Rightarrow> bool" where
  "layer_wf h l =
     (if layer_type l = DROPOUT
      then (\<exists>a out. output l = Some a \<and> dmem h a = Some out \<and> length out = nat (n_inputs l))
      else layer_type l = MAXPOOL \<and>
           (\<exists>a b out ix. output l = Some a \<and> indexes l = Some b \<and>
              dmem h a = Some out \<and> imem h b = Some ix \<and>
              length out = nat (n_outputs l) \<and> length ix = nat (n_outputs l)) \<and>
           n_outputs l = out_h l * out_w l * channels l \<and>
           0 \<le> out_h l \<and> 0 \<le> out_w l \<and> 0 \<le> channels l)"

text \<open>
  \<open>pool_rel\<close> relates the stores of two forward passes run side by side from the stores
  \<open>g1\<close> and \<open>g2\<close>: shapes and inputs are as at the start, and the two output arrays agree
  on the cells in \<open>S\<close>.
\<close>

definition pool_rel ::
  "layer \<Rightarrow> layer \<Rightarrow> dref \<Rightarrow> dref \<Rightarrow> heap \<Rightarrow> heap \<Rightarrow> nat set \<Rightarrow> heap \<Rightarrow> heap \<Rightarrow> bool" where
  "pool_rel l1 l2 in1 in2 g1 g2 S h1 h2 =
     (shape h1 = shape g1 \<and> shape h2 = shape g2 \<and>
      deref_r h1 in1 = deref_r g1 in1 \<and> deref_r h2 in2 = deref_r g2 in2 \<and>
      (\<exists>o1 o2. deref_d h1 (output l1) = Inr o1 \<and> deref_d h2 (output l2) = Inr o2 \<and>
         (\<forall>c\<in>S. o1 ! c = o2 ! c)))"

text \<open>
  \<open>fwd_rel\<close>: after the forward passes of two layers, run from the stores \<open>g1\<close> and \<open>g2\<close>,
  both stores have kept their shape and the two output arrays hold the same values.
\<close>

definition fwd_rel :: "layer \<Rightarrow> layer \<Rightarrow> heap \<Rightarrow> heap \<Rightarrow> heap \<Rightarrow> heap \<Rightarrow> bool" where
  "fwd_rel l1 l2 g1 g2 h1 h2 =
     (shape h1 = shape g1 \<and> shape h2 = shape g2 \<and>
      deref_d h1 (output l1) = deref_d h2 (output l2))"

text \<open>
  \<open>chain_sep r ls\<close>: along the chain of forward passes no layer is handed its own output
  array as input, \<open>r\<close> being the input of the first layer. \<open>final_ref r ls\<close>: the array
  \<open>neural_propagate\<close> leaves its result in.
\<close>

fun chain_sep :: "dref \<Rightarrow> layer list \<Rightarrow> bool" where
  "chain_sep r [] = True"
| "chain_sep r (l # ls) = (r \<noteq> Ptr (output l) \<and> chain_sep (Ptr (output l)) ls)"

definition final_ref :: "dref \<Rightarrow> layer list \<Rightarrow> dref" where
  "final_ref r ls = (if ls = [] then r else Ptr (output (last ls)))"

text \<open>\<open>grid_ok\<close>: a max-pooling layer has as many outputs as its output grid has cells.\<close>

definition grid_ok :: "layer \<Rightarrow> bool" where
  "grid_ok l =
     (layer_type l = DROPOUT \<or>
      (n_outputs l = out_h l * out_w l * channels l \<and>
       0 \<le> out_h l \<and> 0 \<le> out_w l \<and> 0 \<le> channels l))"

section \<open>Properties of the constant prediction\<close>

text \<open>A loop whose body rewrites cell \<open>i\<close> from the old cell \<open>i\<close> alone is a pointwise map.\<close>

lemma forE_pointwise:
  assumes "\<And>i p. i < length p \<Longrightarrow> i \<in> set is \<Longrightarrow> body i p = Inr (p[i := g i (p ! i)])"
    and "distinct is" and "\<forall>i\<in>set is. i < length p"
  shows "\<exists>q. forE is body p = Inr q \<and> length q = length p \<and>
           (\<forall>i<length p. q ! i = (if i \<in> set is then g i (p ! i) else p ! i))"
  using assms
proof (induction "is" arbitrary: p)
  case Nil
  then show ?case by simp
next
  case (Cons j js)
  let ?p1 = "p[j := g j (p ! j)]"
  have j: "j < length p" "j \<notin> set js" using Cons.prems by auto
  have b: "body j p = Inr ?p1" using Cons.prems(1) j by simp
  have "\<exists>q. forE js body ?p1 = Inr q \<and> length q = length ?p1 \<and>
           (\<forall>i<length ?p1. q ! i = (if i \<in> set js then g i (?p1 ! i) else ?p1 ! i))"
  proof (rule Cons.IH)
    show "\<And>i p. i < length p \<Longrightarrow> i \<in> set js \<Longrightarrow> body i p = Inr (p[i := g i (p ! i)])"
      using Cons.prems(1) by simp
    show "distinct js" using Cons.prems(2) by simp
    show "\<forall>i\<in>set js. i < length ?p1" using Cons.prems(3) by simp
  qed
  then obtain q where q: "forE js body ?p1 = Inr q" "length q = length p"
    "\<forall>i<length p. q ! i = (if i \<in> set js then g i (?p1 ! i) else ?p1 ! i)"
    by auto
  have "\<forall>i<length p. q ! i = (if i \<in> set (j # js) then g i (p ! i) else p ! i)"
  proof (intro allI impI)
    fix i assume i: "i < length p"
    show "q ! i = (if i \<in> set (j # js) then g i (p ! i) else p ! i)"
      using q(3) i j by (cases "i = j") auto
  qed
  then show ?case using b q by simp
qed

lemma mean_step_eq:
  "var < length p \<Longrightarrow> var < length y \<Longrightarrow>
   mean_step c y var p = Inr (p[var := (p ! var * of_int (exp c - 1) + y ! var) / of_int (exp c)])"
  by (simp add: mean_step_def rd_def wr_def)

lemma beta_step_eq:
  "var < length p \<Longrightarrow> var < length y \<Longrightarrow>
   beta_step X y var p = Inr (p[var := p ! var + BETA X * (y ! var - p ! var)])"
  by (simp add: beta_step_def rd_def wr_def)

lemma pred_constant_update_cells:
  assumes "1 \<le> exp c"
    and "nat (y_dim X) \<le> length (prediction c)" and "nat (y_dim X) \<le> length y"
  shows "\<exists>c'. pred_constant_update X c x y = Inr c' \<and> exp c' = exp c \<and>
           length (prediction c') = length (prediction c) \<and>
           (\<forall>v<length (prediction c). prediction c' ! v =
              (if v < nat (y_dim X)
               then (if of_int (exp c) * BETA X < 1
                     then (prediction c ! v * of_int (exp c - 1) + y ! v) / of_int (exp c)
                     else prediction c ! v + BETA X * (y ! v - prediction c ! v))
               else prediction c ! v)) \<and>
           pred_constant_update X c x' y = pred_constant_update X c x y"
proof -
  let ?n = "nat (y_dim X)"
  let ?p = "prediction c"
  have same: "pred_constant_update X c x' y = pred_constant_update X c x y"
    by (simp add: pred_constant_update_def)
  show ?thesis
  proof (cases "of_int (exp c) * BETA X < 1")
    case True
    have "\<exists>q. forE [0..<?n] (mean_step c y) ?p = Inr q \<and> length q = length ?p \<and>
           (\<forall>i<length ?p. q ! i = (if i \<in> set [0..<?n]
              then (\<lambda>i pv. (pv * of_int (exp c - 1) + y ! i) / of_int (exp c)) i (?p ! i)
              else ?p ! i))"
    proof (rule forE_pointwise)
      show "\<And>i p. i < length p \<Longrightarrow> i \<in> set [0..<?n] \<Longrightarrow>
          mean_step c y i p = Inr (p[i := (p ! i * of_int (exp c - 1) + y ! i) / of_int (exp c)])"
        using assms(3) by (simp add: mean_step_eq)
      show "distinct [0..<?n]" by simp
      show "\<forall>i\<in>set [0..<?n]. i < length ?p" using assms(2) by simp
    qed
    then obtain q where q: "forE [0..<?n] (mean_step c y) ?p = Inr q" "length q = length ?p"
      "\<forall>i<length ?p. q ! i = (if i < ?n
          then (?p ! i * of_int (exp c - 1) + y ! i) / of_int (exp c) else ?p ! i)"
      by auto
    have "pred_constant_update X c x y = Inr (c\<lparr>prediction := q\<rparr>)"
      using True q(1) by (simp add: pred_constant_update_def)
    then show ?thesis using True q(2,3) same by simp
  next
    case False
    have "\<exists>q. forE [0..<?n] (beta_step X y) ?p = Inr q \<and> length q = length ?p \<and>
           (\<forall>i<length ?p. q ! i = (if i \<in> set [0..<?n]
              then (\<lambda>i pv. pv + BETA X * (y ! i - pv)) i (?p ! i)
              else ?p ! i))"
    proof (rule forE_pointwise)
      show "\<And>i p. i < length p \<Longrightarrow> i \<in> set [0..<?n] \<Longrightarrow>
          beta_step X y i p = Inr (p[i := p ! i + BETA X * (y ! i - p ! i)])"
        using assms(3) by (simp add: beta_step_eq)
      show "distinct [0..<?n]" by simp
      show "\<forall>i\<in>set [0..<?n]. i < length ?p" using assms(2) by simp
    qed
    then obtain q where q: "forE [0..<?n] (beta_step X y) ?p = Inr q" "length q = length ?p"
      "\<forall>i<length ?p. q ! i = (if i < ?n
          then ?p ! i + BETA X * (y ! i - ?p ! i) else ?p ! i)"
      by auto
    have "pred_constant_update X c x y = Inr (c\<lparr>prediction := q\<rparr>)"
      using False q(1) by (simp add: pred_constant_update_def)
    then show ?thesis using False q(2,3) same by simp
  qed
qed

text \<open>
  C1. With \<open>c.exp \<ge> 1\<close> and both arrays holding \<open>y_dim\<close> cells, \<open>pred_constant_update\<close>
  returns normally; every output dimension \<open>v\<close> becomes
  \<open>(prediction[v] * (exp - 1) + y[v]) / exp\<close> while \<open>exp * BETA < 1\<close> and
  \<open>prediction[v] + BETA * (y[v] - prediction[v])\<close> otherwise; cells past \<open>y_dim\<close> and the
  experience are left alone; the input \<open>x\<close> does not influence the result. In the first
  case, when the old value times \<open>exp - 1\<close> is the sum of earlier samples \<open>ys\<close> (the old value
  is their mean), the new value is the mean of \<open>ys\<close> and \<open>y[v]\<close> together.
\<close>

theorem pred_constant_update_spec:
  assumes "1 \<le> exp c"
    and "nat (y_dim X) \<le> length (prediction c)" and "nat (y_dim X) \<le> length y"
  shows "\<exists>c'. pred_constant_update X c x y = Inr c' \<and> exp c' = exp c \<and>
           length (prediction c') = length (prediction c) \<and>
           (\<forall>v<length (prediction c). prediction c' ! v =
              (if v < nat (y_dim X)
               then (if of_int (exp c) * BETA X < 1
                     then (prediction c ! v * of_int (exp c - 1) + y ! v) / of_int (exp c)
                     else prediction c ! v + BETA X * (y ! v - prediction c ! v))
               else prediction c ! v)) \<and>
           (\<forall>v<nat (y_dim X). \<forall>ys. of_int (exp c) * BETA X < 1 \<and>
              prediction c ! v * of_int (exp c - 1) = sum_list ys \<longrightarrow>
              prediction c' ! v = sum_list (ys @ [y ! v]) / of_int (exp c)) \<and>
           pred_constant_update X c x' y = pred_constant_update X c x y"
proof -
  from pred_constant_update_cells [OF assms, of x x']
  obtain c' where r: "pred_constant_update X c x y = Inr c'" "exp c' = exp c"
    "length (prediction c') = length (prediction c)"
    "\<forall>v<length (prediction c). prediction c' ! v =
              (if v < nat (y_dim X)
               then (if of_int (exp c) * BETA X < 1
                     then (prediction c ! v * of_int (exp c - 1) + y ! v) / of_int (exp c)
                     else prediction c ! v + BETA X * (y ! v - prediction c ! v))
               else prediction c ! v)"
    "pred_constant_update X c x' y = pred_constant_update X c x y"
    by blast
  have "prediction c' ! v = sum_list (ys @ [y ! v]) / of_int (exp c)"
    if "v < nat (y_dim X)" "of_int (exp c) * BETA X < 1"
      "prediction c ! v * of_int (exp c - 1) = sum_list ys" for v ys
  proof -
    have "v < length (prediction c)" using that(1) assms(2) by simp
    with r(4) that show ?thesis by simp
  qed
  then show ?thesis using r by blast
qed

theorem pred_constant_update_spec_witness:
  "\<exists>c'. pred_constant_update \<lparr>BETA = 1/10, y_dim = 2, explore = False\<rparr>
          \<lparr>exp = 3, prediction = [1, 2]\<rparr> [] [4, 8] = Inr c' \<and>
        exp c' = 3 \<and> prediction c' ! 0 = 2 \<and> prediction c' ! 1 = 4"
proof -
  let ?X = "\<lparr>BETA = 1/10, y_dim = 2, explore = False\<rparr>"
  let ?c = "\<lparr>exp = 3, prediction = [1, 2]\<rparr>"
  have h1: "1 \<le> exp ?c" by simp
  have h2: "nat (y_dim ?X) \<le> length (prediction ?c)" by simp
  have h3: "nat (y_dim ?X) \<le> length [4, 8 :: real]" by simp
  from pred_constant_update_spec [OF h1 h2 h3, of "[]" "[]"]
  obtain c' where r: "pred_constant_update ?X ?c [] [4, 8] = Inr c'"
    and e: "exp c' = exp ?c"
    and v: "\<forall>v<length (prediction ?c). prediction c' ! v =
              (if v < nat (y_dim ?X)
               then (if of_int (exp ?c) * BETA ?X < 1
                     then (prediction ?c ! v * of_int (exp ?c - 1) + [4, 8] ! v) / of_int (exp ?c)
                     else prediction ?c ! v + BETA ?X * ([4, 8] ! v - prediction ?c ! v))
               else prediction ?c ! v)"
    by blast
  have v0: "prediction c' ! 0 = 2" using v [rule_format, of 0] by simp
  have v1: "prediction c' ! 1 = 4" using v [rule_format, of 1] by simp
  show ?thesis using r e v0 v1 by simp
qed

section \<open>Properties of the layer list\<close>

lemma walk_None: "walk n k None = None"
  by (cases k) simp_all

lemma walk_Some: "i < n \<Longrightarrow> walk n k (Some i) = (if i + k < n then Some (i + k) else None)"
  by (induction k arbitrary: i) (auto simp: walk_None)

lemma walk_tail:
  "walk (length ls) k (tail_node ls) = (if k < length ls then Some k else None)"
  by (cases "ls = []") (simp_all add: tail_node_def walk_None walk_Some)

text \<open>
  C4. On a net with exactly one layer \<open>neural_layer_remove\<close> exits with a diagnostic at
  every position \<open>p\<close> and removes nothing. On a net with at least two layers and
  \<open>0 \<le> p < n_layers\<close> it returns the list without the layer at position \<open>p\<close>, the count
  one less, and the arrays of that layer freed.
\<close>

theorem neural_layer_remove_spec:
  "(length (layers net) = 1 \<longrightarrow>
      neural_layer_remove E net p h \<in>
        {Inl (Exit ''neural_layer_remove(): attempted to remove the only layer''),
         Inl (Exit ''neural_layer_remove(): error finding layer to remove'')}) \<and>
   (2 \<le> length (layers net) \<and> 0 \<le> p \<and> p < int (length (layers net)) \<longrightarrow>
      (\<exists>net' h'. neural_layer_remove E net p h = Inr (net', h') \<and>
         layers net' = take (nat p) (layers net) @ drop (Suc (nat p)) (layers net) \<and>
         length (layers net') = length (layers net) - 1 \<and>
         n_layers net' = n_layers net - 1 \<and>
         h' = layer_free E (layers net ! nat p) h))"
  by (auto simp: neural_layer_remove_def walk_tail Let_def)

theorem neural_layer_remove_spec_witness:
  "neural_layer_remove ex_ext ex_net1 0 ex_heap \<in>
     {Inl (Exit ''neural_layer_remove(): attempted to remove the only layer''),
      Inl (Exit ''neural_layer_remove(): error finding layer to remove'')} \<and>
   (\<exists>net' h'. neural_layer_remove ex_ext ex_net2 1 ex_heap = Inr (net', h') \<and>
      layers net' = [ex_maxpool] \<and> n_layers net' = 1 \<and>
      h' = layer_free ex_ext ex_dropout ex_heap)"
  using neural_layer_remove_spec [of ex_net1 ex_ext 0 ex_heap]
    neural_layer_remove_spec [of ex_net2 ex_ext 1 ex_heap]
  by (auto simp: ex_net1_def ex_net2_def)



text \<open>
  What \<open>neural_init\<close>, \<open>neural_layer_insert\<close> and \<open>neural_layer_remove\<close> do keep: the layer
  count and the output fields follow the list; an insertion that returns keeps the input
  width in step with the tail.
\<close>

lemma head_inv_init: "head_inv (neural_init net)" "tail_inv (neural_init net)"
  by (simp_all add: head_inv_def tail_inv_def neural_init_def)

lemma head_inv_insert:
  assumes "head_inv net" and "neural_layer_insert net l p = Inr net'"
  shows "head_inv net'"
  using assms
  by (auto simp: head_inv_def neural_layer_insert_def walk_tail Let_def last_append
      split: if_splits)

lemma tail_inv_insert:
  assumes "tail_inv net" and "neural_layer_insert net l p = Inr net'"
  shows "tail_inv net'"
  using assms
  by (auto simp: tail_inv_def neural_layer_insert_def walk_tail Let_def hd_append
      split: if_splits)

lemma last_remove_head:
  "Suc i = length ls \<Longrightarrow> 0 < i \<Longrightarrow> last (take i ls @ drop (Suc i) ls) = ls ! (i - 1)"
proof -
  assume a: "Suc i = length ls" "0 < i"
  then have "take i ls \<noteq> []" by auto
  then have "last (take i ls) = take i ls ! (length (take i ls) - 1)"
    by (rule last_conv_nth)
  also have "\<dots> = ls ! (i - 1)" using a by simp
  finally show ?thesis using a by simp
qed

lemma last_remove_other:
  "Suc i < length ls \<Longrightarrow> last (take i ls @ drop (Suc i) ls) = last ls"
  by (simp add: last_drop)

lemma head_inv_remove:
  assumes "head_inv net" and "neural_layer_remove E net p h = Inr (net', h')"
  shows "head_inv net'"
proof -
  let ?ls = "layers net"
  let ?i = "nat p"
  from assms(2) have i: "?i < length ?ls" and two: "\<not> (?i = 0 \<and> Suc ?i = length ?ls)"
    by (auto simp: neural_layer_remove_def walk_tail Let_def split: if_splits)
  show ?thesis
  proof (cases "Suc ?i = length ?ls")
    case True
    with two have pos: "0 < ?i" by simp
    from assms(2) i True pos
    have n': "net' = net\<lparr>net_output := output (?ls ! (?i - 1)),
                          net_n_outputs := n_outputs (?ls ! (?i - 1)),
                          layers := take ?i ?ls @ drop (Suc ?i) ?ls,
                          n_layers := n_layers net - 1\<rparr>"
      by (auto simp: neural_layer_remove_def walk_tail Let_def)
    have "last (take ?i ?ls @ drop (Suc ?i) ?ls) = ?ls ! (?i - 1)"
      using True pos by (rule last_remove_head)
    then show ?thesis using assms(1) i True pos unfolding n' head_inv_def by auto
  next
    case False
    with i have lt: "Suc ?i < length ?ls" by simp
    from assms(2) i False
    have n': "net' = net\<lparr>layers := take ?i ?ls @ drop (Suc ?i) ?ls,
                          n_layers := n_layers net - 1\<rparr>"
      by (auto simp: neural_layer_remove_def walk_tail Let_def)
    have "last (take ?i ?ls @ drop (Suc ?i) ?ls) = last ?ls"
      using lt by (rule last_remove_other)
    then show ?thesis using assms(1) lt unfolding n' head_inv_def by auto
  qed
qed

text \<open>
  C10. The bookkeeping fields do not stay consistent with the list. Built by
  \<open>neural_init\<close> and two calls of \<open>neural_layer_insert\<close>, the net holds the max-pooling
  layer (4 inputs) below the dropout layer (1 input); removing position 0 leaves the
  dropout layer as the tail while \<open>n_inputs\<close> of the net is still 4. And inserting at
  position 0 into a net that already has a layer ends in a store through a null pointer.
\<close>

theorem neural_layer_remove_tail_keeps_n_inputs:
  "bindE (neural_layer_insert (neural_init empty_net) ex_maxpool 0) (\<lambda>n1.
   bindE (neural_layer_insert n1 ex_dropout 1) (\<lambda>n2.
     neural_layer_remove ex_ext n2 0 ex_heap)) =
     Inr (\<lparr>layers = [ex_dropout], n_layers = 1, net_n_inputs = 4, net_n_outputs = 1,
           net_output = Some 3\<rparr>, layer_free ex_ext ex_maxpool ex_heap) \<and>
   n_inputs ex_dropout = 1 \<and>
   neural_layer_insert ex_net1 ex_dropout 0 = Inl Segv"
  by (simp add: bindE_def neural_layer_insert_def neural_init_def empty_net_def
      neural_layer_remove_def tail_node_def ex_maxpool_def ex_dropout_def zero_layer_def
      ex_net1_def)

section \<open>Properties of the dropout layer\<close>

text \<open>An invariant rule for the counted loop: \<open>P k\<close> holds after \<open>k\<close> rounds.\<close>

lemma forE_rule:
  assumes "P 0 s"
    and "\<And>k s. k < length is \<Longrightarrow> P k s \<Longrightarrow> \<exists>s'. body (is ! k) s = Inr s' \<and> P (Suc k) s'"
  shows "\<exists>s'. forE is body s = Inr s' \<and> P (length is) s'"
  using assms
proof (induction "is" arbitrary: P s)
  case Nil
  then show ?case by simp
next
  case (Cons j js)
  from Cons.prems(2) [of 0 s] Cons.prems(1)
  obtain s1 where s1: "body j s = Inr s1" "P (Suc 0) s1" by auto
  have "\<exists>s'. forE js body s1 = Inr s' \<and> (\<lambda>k. P (Suc k)) (length js) s'"
  proof (rule Cons.IH)
    show "P (Suc 0) s1" by (rule s1(2))
    show "\<And>k s. k < length js \<Longrightarrow> P (Suc k) s \<Longrightarrow>
            \<exists>s'. body (js ! k) s = Inr s' \<and> P (Suc (Suc k)) s'"
      using Cons.prems(2) by fastforce
  qed
  then show ?case using s1(1) by simp
qed

lemma forE_upt_rule:
  assumes "P 0 s"
    and "\<And>k s. k < n \<Longrightarrow> P k s \<Longrightarrow> \<exists>s'. body k s = Inr s' \<and> P (Suc k) s'"
  shows "\<exists>s'. forE [0..<n] body s = Inr s' \<and> P n s'"
proof -
  have "\<exists>s'. forE [0..<n] body s = Inr s' \<and> P (length [0..<n]) s'"
    by (rule forE_rule) (use assms in auto)
  then show ?thesis by simp
qed

lemma peek_d_live:
  "dmem h a = Some xs \<Longrightarrow> i < length xs \<Longrightarrow> peek_d h (Some a) (int i) = Inr (xs ! i)"
  by (simp add: peek_d_def bindE_def deref_d_def rd_def)

lemma poke_d_live:
  "dmem h a = Some xs \<Longrightarrow> i < length xs \<Longrightarrow>
   poke_d (Some a) (int i) v h = Inr (h\<lparr>dmem := (dmem h)(a \<mapsto> xs[i := v])\<rparr>)"
  by (simp add: poke_d_def bindE_def deref_d_def wr_def store_d_def)

lemma peek_r_live:
  "deref_r h r = Inr xs \<Longrightarrow> i < length xs \<Longrightarrow> peek_r h r (int i) = Inr (xs ! i)"
  by (simp add: peek_r_def bindE_def rd_def)

lemma deref_r_frame:
  "r \<noteq> Ptr (Some a) \<Longrightarrow> deref_r (h\<lparr>dmem := (dmem h)(a \<mapsto> ys)\<rparr>) r = deref_r h r"
  by (cases r) (auto simp: deref_r_def deref_d_def split: option.splits)

lemma deref_r_frame2:
  "r \<noteq> Ptr (Some a) \<Longrightarrow> r \<noteq> Ptr (Some b) \<Longrightarrow>
   deref_r (h\<lparr>dmem := (dmem h)(b \<mapsto> ys, a \<mapsto> zs)\<rparr>) r = deref_r h r"
  by (cases r) (auto simp: deref_r_def deref_d_def split: option.splits)

lemma dropout_forward_step_live:
  assumes "output l = Some a" "state l = Some b" "a \<noteq> b"
    and "dmem h a = Some out" "dmem h b = Some st" "deref_r h input = Inr xs"
    and "input \<noteq> Ptr (Some a)" "input \<noteq> Ptr (Some b)"
    and "i < length out" "i < length st" "i < length xs"
  shows "dropout_forward_step rnd l input i h =
           Inr (h\<lparr>dmem := (dmem h)(b \<mapsto> st[i := rnd i],
                   a \<mapsto> out[i := (if rnd i < probability l then 0 else xs ! i * scale l)])\<rparr>)"
proof -
  let ?h1 = "h\<lparr>dmem := (dmem h)(b \<mapsto> st[i := rnd i])\<rparr>"
  have p1: "poke_d (state l) (int i) (rnd i) h = Inr ?h1"
    using assms by (simp add: poke_d_live)
  have s1: "peek_d ?h1 (state l) (int i) = Inr (rnd i)"
    using assms by (simp add: peek_d_live)
  have o1: "dmem ?h1 a = Some out" using assms by simp
  have r1: "peek_r ?h1 input (int i) = Inr (xs ! i)"
    using assms by (simp add: peek_r_live deref_r_frame)
  have w: "\<And>v. poke_d (output l) (int i) v ?h1 = Inr (?h1\<lparr>dmem := (dmem ?h1)(a \<mapsto> out[i := v])\<rparr>)"
    using assms o1 by (simp add: poke_d_live)
  show ?thesis
    unfolding dropout_forward_step_def using p1 s1 r1 w by (simp add: bindE_def)
qed

text \<open>
  C8. Let the output array of a dropout layer be live with at least \<open>n_inputs\<close> cells
  and the input hold at least \<open>n_inputs\<close> cells. With \<open>explore\<close> false the forward pass
  returns with \<open>output[i] = input[i]\<close> for every \<open>i < n_inputs\<close>, and the random stream
  has no influence on the result. With \<open>explore\<close> true (and the state array live,
  apart from the output array and from the input) every \<open>output[i]\<close> is 0 or
  \<open>input[i] * scale\<close>. A layer returned by \<open>neural_layer_dropout_init\<close> has
  \<open>scale = 1 / (1 - probability)\<close>; the case \<open>probability = 1\<close>, where C divides by
  zero, is left out.
\<close>

theorem neural_layer_dropout_forward_spec:
  assumes "output l = Some a" and "dmem h a = Some out" and "deref_r h input = Inr xs"
    and "0 \<le> n_inputs l" and "nat (n_inputs l) \<le> length out" and "nat (n_inputs l) \<le> length xs"
  shows "(\<not> explore X \<longrightarrow>
            (\<exists>h' out'. neural_layer_dropout_forward X rnd l input h = Inr h' \<and>
               dmem h' a = Some out' \<and> length out' = length out \<and>
               (\<forall>i<nat (n_inputs l). out' ! i = xs ! i)) \<and>
            neural_layer_dropout_forward X rnd' l input h =
              neural_layer_dropout_forward X rnd l input h) \<and>
         (explore X \<and> state l = Some b \<and> b \<noteq> a \<and> dmem h b = Some st \<and>
          nat (n_inputs l) \<le> length st \<and> input \<noteq> Ptr (Some a) \<and> input \<noteq> Ptr (Some b) \<longrightarrow>
            (\<exists>h' out'. neural_layer_dropout_forward X rnd l input h = Inr h' \<and>
               dmem h' a = Some out' \<and> length out' = length out \<and>
               (\<forall>i<nat (n_inputs l). out' ! i = 0 \<or> out' ! i = xs ! i * scale l))) \<and>
         (p \<noteq> 1 \<and> neural_layer_dropout_init E n p h0 = Inr (l0, h1) \<longrightarrow>
            probability l0 = p \<and> scale l0 = 1 / (1 - p))"
proof (intro conjI impI)
  assume "\<not> explore X"
  then have "neural_layer_dropout_forward X rnd l input h =
      Inr (h\<lparr>dmem := (dmem h)(a \<mapsto> take (nat (n_inputs l)) xs @ drop (nat (n_inputs l)) out)\<rparr>)"
    using assms
    by (simp add: neural_layer_dropout_forward_def memcpy_d_def bindE_def deref_d_def store_d_def)
  moreover have "\<forall>i<nat (n_inputs l).
      (take (nat (n_inputs l)) xs @ drop (nat (n_inputs l)) out) ! i = xs ! i"
    using assms by (simp add: nth_append)
  ultimately show "\<exists>h' out'. neural_layer_dropout_forward X rnd l input h = Inr h' \<and>
               dmem h' a = Some out' \<and> length out' = length out \<and>
               (\<forall>i<nat (n_inputs l). out' ! i = xs ! i)"
    using assms by simp
next
  assume "\<not> explore X"
  then show "neural_layer_dropout_forward X rnd' l input h =
              neural_layer_dropout_forward X rnd l input h"
    by (simp add: neural_layer_dropout_forward_def)
next
  assume ex: "explore X \<and> state l = Some b \<and> b \<noteq> a \<and> dmem h b = Some st \<and>
          nat (n_inputs l) \<le> length st \<and> input \<noteq> Ptr (Some a) \<and> input \<noteq> Ptr (Some b)"
  let ?n = "nat (n_inputs l)"
  let ?P = "\<lambda>k h'. \<exists>out' st'. dmem h' a = Some out' \<and> dmem h' b = Some st' \<and>
      length out' = length out \<and> length st' = length st \<and> deref_r h' input = Inr xs \<and>
      (\<forall>i<k. out' ! i = (if rnd i < probability l then 0 else xs ! i * scale l))"
  have "\<exists>h'. forE [0..<?n] (dropout_forward_step rnd l input) h = Inr h' \<and> ?P ?n h'"
  proof (rule forE_upt_rule)
    show "?P 0 h" using assms ex by simp
  next
    fix k h' assume k: "k < ?n" and P: "?P k h'"
    then obtain out' st' where o: "dmem h' a = Some out'" "dmem h' b = Some st'"
      "length out' = length out" "length st' = length st" "deref_r h' input = Inr xs"
      "\<forall>i<k. out' ! i = (if rnd i < probability l then 0 else xs ! i * scale l)"
      by blast
    have step: "dropout_forward_step rnd l input k h' =
           Inr (h'\<lparr>dmem := (dmem h')(b \<mapsto> st'[k := rnd k],
                   a \<mapsto> out'[k := (if rnd k < probability l then 0 else xs ! k * scale l)])\<rparr>)"
      using assms ex o k by (intro dropout_forward_step_live) auto
    have "?P (Suc k) (h'\<lparr>dmem := (dmem h')(b \<mapsto> st'[k := rnd k],
                   a \<mapsto> out'[k := (if rnd k < probability l then 0 else xs ! k * scale l)])\<rparr>)"
      using o k ex assms by (auto simp: deref_r_frame2 nth_list_update less_Suc_eq)
    with step show "\<exists>s'. dropout_forward_step rnd l input k h' = Inr s' \<and> ?P (Suc k) s'"
      by blast
  qed
  then obtain h' out' where r: "forE [0..<?n] (dropout_forward_step rnd l input) h = Inr h'"
    "dmem h' a = Some out'" "length out' = length out"
    "\<forall>i<?n. out' ! i = (if rnd i < probability l then 0 else xs ! i * scale l)"
    by blast
  have "\<forall>i<?n. out' ! i = 0 \<or> out' ! i = xs ! i * scale l"
    using r(4) by auto
  then show "\<exists>h' out'. neural_layer_dropout_forward X rnd l input h = Inr h' \<and>
               dmem h' a = Some out' \<and> length out' = length out \<and>
               (\<forall>i<nat (n_inputs l). out' ! i = 0 \<or> out' ! i = xs ! i * scale l)"
    using r ex by (auto simp: neural_layer_dropout_forward_def)
next
  assume a: "p \<noteq> 1 \<and> neural_layer_dropout_init E n p h0 = Inr (l0, h1)"
  then show "probability l0 = p"
    by (auto simp: neural_layer_dropout_init_def dropout_malloc_layer_arrays_def Let_def
        calloc_d_def split: if_splits)
next
  assume a: "p \<noteq> 1 \<and> neural_layer_dropout_init E n p h0 = Inr (l0, h1)"
  then show "scale l0 = 1 / (1 - p)"
    by (auto simp: neural_layer_dropout_init_def dropout_malloc_layer_arrays_def Let_def
        calloc_d_def split: if_splits)
qed

theorem neural_layer_dropout_forward_spec_witness:
  "(\<exists>h' out'. neural_layer_dropout_forward \<lparr>BETA = 1 / 10, y_dim = 1, explore = False\<rparr>
        (\<lambda>i. 3 / 4) ex_dropout (Arr [9]) ex_heap = Inr h' \<and>
      dmem h' 3 = Some out' \<and> out' ! 0 = 9) \<and>
   (\<exists>h' out'. neural_layer_dropout_forward \<lparr>BETA = 1 / 10, y_dim = 1, explore = True\<rparr>
        (\<lambda>i. 3 / 4) ex_dropout (Arr [9]) ex_heap = Inr h' \<and>
      dmem h' 3 = Some out' \<and> (out' ! 0 = 0 \<or> out' ! 0 = 18)) \<and>
   (\<exists>l0 h1. neural_layer_dropout_init ex_ext 1 (1 / 2) empty_heap = Inr (l0, h1) \<and>
      probability l0 = 1 / 2 \<and> scale l0 = 2)"
proof -
  let ?X0 = "\<lparr>BETA = 1 / 10, y_dim = 1, explore = False\<rparr>"
  let ?X1 = "\<lparr>BETA = 1 / 10, y_dim = 1, explore = True\<rparr>"
  have l: "output ex_dropout = Some 3" "state ex_dropout = Some 5" "n_inputs ex_dropout = 1"
    "scale ex_dropout = 2"
    by (simp_all add: ex_dropout_def zero_layer_def)
  have h: "dmem ex_heap 3 = Some [7]" "dmem ex_heap 5 = Some [0]"
    by (simp_all add: ex_heap_def)
  have r: "deref_r ex_heap (Arr [9]) = Inr [9]" by (simp add: deref_r_def)
  have n: "0 \<le> n_inputs ex_dropout" "nat (n_inputs ex_dropout) \<le> length [7::real]"
    "nat (n_inputs ex_dropout) \<le> length [9::real]"
    using l by simp_all
  obtain l0 h1 where i: "neural_layer_dropout_init ex_ext 1 (1 / 2) empty_heap = Inr (l0, h1)"
    by (simp add: neural_layer_dropout_init_def dropout_malloc_layer_arrays_def ex_ext_def
        calloc_d_def Let_def)
  note t0 = neural_layer_dropout_forward_spec [OF l(1) h(1) r n, of ?X0 "\<lambda>i. 3 / 4" "\<lambda>i. 3 / 4"
      5 "[0]" "1 / 2" ex_ext 1 empty_heap l0 h1]
  note t1 = neural_layer_dropout_forward_spec [OF l(1) h(1) r n, of ?X1 "\<lambda>i. 3 / 4" "\<lambda>i. 3 / 4"
      5 "[0]" "1 / 2" ex_ext 1 empty_heap l0 h1]
  have a: "\<exists>h' out'. neural_layer_dropout_forward ?X0 (\<lambda>i. 3 / 4) ex_dropout (Arr [9]) ex_heap = Inr h' \<and>
      dmem h' 3 = Some out' \<and> out' ! 0 = 9"
    using t0 l by auto
  have b: "\<exists>h' out'. neural_layer_dropout_forward ?X1 (\<lambda>i. 3 / 4) ex_dropout (Arr [9]) ex_heap = Inr h' \<and>
      dmem h' 3 = Some out' \<and> (out' ! 0 = 0 \<or> out' ! 0 = 18)"
    using t1 l h by auto
  have c: "probability l0 = 1 / 2 \<and> scale l0 = 2"
    using t0 i by simp
  show ?thesis using a b c i by blast
qed

section \<open>Properties of the max-pooling layer\<close>

lemma index_bound:
  fixes a q W Q :: int
  assumes "0 \<le> a" "a < W" "0 \<le> q" "q < Q"
  shows "0 \<le> a + W * q \<and> a + W * q < W * Q"
proof -
  have W: "0 < W" using assms by simp
  have "0 \<le> W * q" using W assms by simp
  moreover have "a + W * q < W * (q + 1)" using assms by (simp add: algebra_simps)
  moreover have "W * (q + 1) \<le> W * Q" using W assms by (intro mult_left_mono) auto
  ultimately show ?thesis using assms by linarith
qed

lemma cell_index_bound:
  fixes cw ch k W H C :: int
  assumes "0 \<le> cw" "cw < W" "0 \<le> ch" "ch < H" "0 \<le> k" "k < C"
  shows "0 \<le> cw + W * (ch + H * k) \<and> cw + W * (ch + H * k) < H * W * C"
proof -
  have q: "0 \<le> ch + H * k \<and> ch + H * k < H * C"
    using assms by (intro index_bound) auto
  have "0 \<le> cw + W * (ch + H * k) \<and> cw + W * (ch + H * k) < W * (H * C)"
    using assms q by (intro index_bound) auto
  then show ?thesis by (simp add: mult.assoc mult.left_commute)
qed

lemma max_pool_cell_eq:
  "max_pool_cell l h input i j k n m acc =
     (let index = cur_pos l j m + width l * (cur_pos l i n + height l * k)
      in if in_grid l i j n m
         then bindE (peek_r h input index) (\<lambda>v. if fst acc < v then Inr (v, index) else Inr acc)
         else Inr acc)"
  by (simp add: max_pool_cell_def cur_pos_def in_grid_def Let_def)

lemma peek_r_int:
  "deref_r h r = Inr xs \<Longrightarrow> 0 \<le> i \<Longrightarrow> nat i < length xs \<Longrightarrow> peek_r h r i = Inr (xs ! nat i)"
  by (simp add: peek_r_def bindE_def rd_def)

lemma max_pool_cell_inv:
  assumes geom: "n_inputs l = height l * width l * channels l"
    and inp: "deref_r h input = Inr xs" "nat (n_inputs l) \<le> length xs"
    and big: "\<forall>x\<in>set xs. - DBL_MAX < x"
    and k: "0 \<le> k" "k < channels l"
    and inv: "pool_inv l vis acc"
  shows "\<exists>acc'. max_pool_cell l h input i j k n m acc = Inr acc' \<and>
           pool_inv l (vis \<or> in_grid l i j n m) acc'"
proof (cases "in_grid l i j n m")
  case False
  then show ?thesis using inv by (simp add: max_pool_cell_eq)
next
  case True
  let ?index = "cur_pos l j m + width l * (cur_pos l i n + height l * k)"
  have b: "0 \<le> ?index \<and> ?index < height l * width l * channels l"
    using True k unfolding in_grid_def by (intro cell_index_bound) auto
  then have r: "0 \<le> ?index" "?index < n_inputs l" using geom by auto
  then have len: "nat ?index < length xs" using inp(2) by linarith
  have pk: "peek_r h input ?index = Inr (xs ! nat ?index)"
    using inp(1) r(1) len by (rule peek_r_int)
  have v: "- DBL_MAX < xs ! nat ?index" using big len by simp
  show ?thesis
  proof (cases "fst acc < xs ! nat ?index")
    case lt: True
    have "max_pool_cell l h input i j k n m acc = Inr (xs ! nat ?index, ?index)"
      using True pk lt by (simp add: max_pool_cell_eq bindE_def Let_def)
    then show ?thesis using r by (simp add: pool_inv_def)
  next
    case ge: False
    have e: "max_pool_cell l h input i j k n m acc = Inr acc"
      using True pk ge by (simp add: max_pool_cell_eq bindE_def Let_def)
    have "0 \<le> snd acc \<and> snd acc < n_inputs l"
      using inv ge v unfolding pool_inv_def by auto
    then show ?thesis using e by (simp add: pool_inv_def)
  qed
qed

lemma max_pool_in_range:
  assumes geom: "n_inputs l = height l * width l * channels l"
    and inp: "deref_r h input = Inr xs" "nat (n_inputs l) \<le> length xs"
    and big: "\<forall>x\<in>set xs. - DBL_MAX < x"
    and k: "0 \<le> k" "k < channels l"
    and hit: "window_hits l i j"
  shows "\<exists>idx. max_pool l h input i j k = Inr idx \<and> 0 \<le> idx \<and> idx < n_inputs l"
proof -
  let ?sz = "nat (size l)"
  let ?V = "\<lambda>n. \<exists>n'<n. \<exists>m'<?sz. in_grid l i j n' m'"
  have "\<exists>acc. forE [0..<?sz] (\<lambda>n. forE [0..<?sz] (\<lambda>m. max_pool_cell l h input i j k n m))
            (- DBL_MAX, - 1) = Inr acc \<and> pool_inv l (?V ?sz) acc"
  proof (rule forE_upt_rule [where P = "\<lambda>n acc. pool_inv l (?V n) acc"])
    show "pool_inv l (?V 0) (- DBL_MAX, - 1)" by (simp add: pool_inv_def)
  next
    fix n acc assume n: "n < ?sz" and P: "pool_inv l (?V n) acc"
    have "\<exists>acc'. forE [0..<?sz] (\<lambda>m. max_pool_cell l h input i j k n m) acc = Inr acc' \<and>
            pool_inv l (?V n \<or> (\<exists>m'<?sz. in_grid l i j n m')) acc'"
    proof (rule forE_upt_rule
        [where P = "\<lambda>m acc. pool_inv l (?V n \<or> (\<exists>m'<m. in_grid l i j n m')) acc"])
      show "pool_inv l (?V n \<or> (\<exists>m'<0. in_grid l i j n m')) acc" using P by simp
    next
      fix m acc1
      assume m: "m < ?sz" and Q: "pool_inv l (?V n \<or> (\<exists>m'<m. in_grid l i j n m')) acc1"
      from max_pool_cell_inv [OF geom inp big k Q, of i j n m]
      obtain acc' where c: "max_pool_cell l h input i j k n m acc1 = Inr acc'"
        "pool_inv l ((?V n \<or> (\<exists>m'<m. in_grid l i j n m')) \<or> in_grid l i j n m) acc'"
        by blast
      have "((?V n \<or> (\<exists>m'<m. in_grid l i j n m')) \<or> in_grid l i j n m) =
            (?V n \<or> (\<exists>m'<Suc m. in_grid l i j n m'))"
        by (auto simp: less_Suc_eq)
      with c show "\<exists>s'. max_pool_cell l h input i j k n m acc1 = Inr s' \<and>
            pool_inv l (?V n \<or> (\<exists>m'<Suc m. in_grid l i j n m')) s'"
        by auto
    qed
    moreover have "(?V n \<or> (\<exists>m'<?sz. in_grid l i j n m')) = ?V (Suc n)"
      by (auto simp: less_Suc_eq)
    ultimately show "\<exists>s'. forE [0..<?sz] (\<lambda>m. max_pool_cell l h input i j k n m) acc = Inr s' \<and>
            pool_inv l (?V (Suc n)) s'"
      by auto
  qed
  then obtain acc where a: "forE [0..<?sz] (\<lambda>n. forE [0..<?sz] (\<lambda>m. max_pool_cell l h input i j k n m))
            (- DBL_MAX, - 1) = Inr acc" "pool_inv l (?V ?sz) acc"
    by blast
  have "?V ?sz" using hit by (fastforce simp: window_hits_def list_ex_iff)
  then have "0 \<le> snd acc \<and> snd acc < n_inputs l" using a(2) by (simp add: pool_inv_def)
  then show ?thesis using a(1) by (simp add: max_pool_def bindE_def)
qed

lemma forE_upt_union_rule:
  assumes "I S s"
    and "\<And>j S' s. j < n \<Longrightarrow> I S' s \<Longrightarrow> \<exists>s'. body j s = Inr s' \<and> I (S' \<union> T j) s'"
  shows "\<exists>s'. forE [0..<n] body s = Inr s' \<and> I (S \<union> (\<Union>j<n. T j)) s'"
proof (rule forE_upt_rule [where P = "\<lambda>k s. I (S \<union> (\<Union>j<k. T j)) s"])
  show "I (S \<union> (\<Union>j<0. T j)) s" using assms(1) by simp
next
  fix k s assume k: "k < n" and P: "I (S \<union> (\<Union>j<k. T j)) s"
  from assms(2) [OF k P] obtain s' where
    s': "body k s = Inr s'" "I ((S \<union> (\<Union>j<k. T j)) \<union> T k) s'" by blast
  have "(S \<union> (\<Union>j<k. T j)) \<union> T k = S \<union> (\<Union>j<Suc k. T j)"
    by (auto simp: less_Suc_eq)
  with s' show "\<exists>s'. body k s = Inr s' \<and> I (S \<union> (\<Union>j<Suc k. T j)) s'" by auto
qed

lemma poke_i_int:
  "imem h a = Some xs \<Longrightarrow> 0 \<le> i \<Longrightarrow> nat i < length xs \<Longrightarrow>
   poke_i (Some a) i v h = Inr (h\<lparr>imem := (imem h)(a \<mapsto> xs[nat i := v])\<rparr>)"
  by (simp add: poke_i_def bindE_def deref_i_def wr_def store_i_def)

lemma poke_d_int:
  "dmem h a = Some xs \<Longrightarrow> 0 \<le> i \<Longrightarrow> nat i < length xs \<Longrightarrow>
   poke_d (Some a) i v h = Inr (h\<lparr>dmem := (dmem h)(a \<mapsto> xs[nat i := v])\<rparr>)"
  by (simp add: poke_d_def bindE_def deref_d_def wr_def store_d_def)

lemma deref_r_imem: "deref_r (h\<lparr>imem := m\<rparr>) r = deref_r h r"
  by (cases r) (auto simp: deref_r_def deref_d_def split: option.splits)

lemma maxpool_forward_cell_inv:
  assumes geom: "n_inputs l = height l * width l * channels l"
    and inp: "nat (n_inputs l) \<le> length xs"
    and big: "\<forall>x\<in>set xs. - DBL_MAX < x"
    and hit: "window_hits l (int i) (int j)"
    and bufs: "indexes l = Some a" "output l = Some b"
    and len: "out_h l * out_w l * channels l \<le> int len"
    and sep: "input \<noteq> Ptr (Some b)"
    and r: "k < nat (channels l)" "i < nat (out_h l)" "j < nat (out_w l)"
    and inv: "pool_heap_inv l input xs a b len S h"
  shows "\<exists>h'. maxpool_forward_cell l input k i j h = Inr h' \<and>
           pool_heap_inv l input xs a b len (S \<union> {nat (out_index l k i j)}) h'"
proof -
  from inv obtain ix out where o: "imem h a = Some ix" "length ix = len" "dmem h b = Some out"
    "length out = len" "deref_r h input = Inr xs" "\<forall>c\<in>S. 0 \<le> ix ! c \<and> ix ! c < n_inputs l"
    unfolding pool_heap_inv_def by blast
  let ?oi = "out_index l k i j"
  have "0 \<le> int j + out_w l * (int i + out_h l * int k) \<and>
        int j + out_w l * (int i + out_h l * int k) < out_h l * out_w l * channels l"
    using r by (intro cell_index_bound) auto
  then have oi: "0 \<le> ?oi" "nat ?oi < len" using len by (auto simp: out_index_def)
  have kk: "0 \<le> int k" "int k < channels l" using r(1) by linarith+
  from max_pool_in_range [OF geom o(5) inp big kk hit]
  obtain idx where m: "max_pool l h input (int i) (int j) (int k) = Inr idx" "0 \<le> idx"
    "idx < n_inputs l" by auto
  let ?h1 = "h\<lparr>imem := (imem h)(a \<mapsto> ix[nat ?oi := idx])\<rparr>"
  have p1: "poke_i (indexes l) ?oi idx h = Inr ?h1"
    using o oi bufs by (simp add: poke_i_int)
  have "nat idx < length xs" using m inp by linarith
  then have p2: "peek_r ?h1 input idx = Inr (xs ! nat idx)"
    using o(5) m(2) by (intro peek_r_int) (simp_all add: deref_r_imem)
  let ?h2 = "?h1\<lparr>dmem := (dmem ?h1)(b \<mapsto> out[nat ?oi := xs ! nat idx])\<rparr>"
  have p3: "poke_d (output l) ?oi (xs ! nat idx) ?h1 = Inr ?h2"
    using o oi bufs by (simp add: poke_d_int)
  have e: "maxpool_forward_cell l input k i j h = Inr ?h2"
    unfolding maxpool_forward_cell_def Let_def out_index_def [symmetric]
    using m(1) p1 p2 p3 by (simp add: bindE_def)
  have d: "deref_r ?h2 input = Inr xs"
    using o(5) sep by (cases input) (auto simp: deref_r_def deref_d_def split: option.splits)
  have "\<forall>c\<in>S \<union> {nat ?oi}. 0 \<le> ix[nat ?oi := idx] ! c \<and> ix[nat ?oi := idx] ! c < n_inputs l"
    using o(2,6) oi m by (auto simp: nth_list_update)
  then have "pool_heap_inv l input xs a b len (S \<union> {nat ?oi}) ?h2"
    unfolding pool_heap_inv_def using o d by simp
  with e show ?thesis by blast
qed

text \<open>
  C9, as amended. Take a max-pooling layer with \<open>n_inputs = height * width * channels\<close>,
  whose \<open>indexes\<close> and \<open>output\<close> arrays are live with at least
  \<open>out_h * out_w * channels\<close> cells, and an input of at least \<open>n_inputs\<close> cells, not the
  output array itself, every cell of which is greater than \<open>-DBL_MAX\<close>; let every
  pooling window contain a grid position inside the input. Then the forward pass
  returns without an invalid access, \<open>max_pool\<close> returns an index in \<open>[0, n_inputs)\<close> for
  every output cell, and every index stored in \<open>indexes\<close> lies in \<open>[0, n_inputs)\<close>.
\<close>

theorem neural_layer_maxpool_forward_indexes:
  assumes geom: "n_inputs l = height l * width l * channels l"
    and inp: "deref_r h input = Inr xs" "nat (n_inputs l) \<le> length xs"
    and big: "\<forall>x\<in>set xs. - DBL_MAX < x"
    and win: "windows_ok l"
    and bufs: "indexes l = Some a" "imem h a = Some ix" "output l = Some b" "dmem h b = Some out"
    and len: "length ix = length out" "out_h l * out_w l * channels l \<le> int (length ix)"
    and sep: "input \<noteq> Ptr (Some b)"
  shows "\<exists>h' ix'. neural_layer_maxpool_forward l input h = Inr h' \<and> imem h' a = Some ix' \<and>
           length ix' = length ix \<and>
           (\<forall>k<nat (channels l). \<forall>i<nat (out_h l). \<forall>j<nat (out_w l).
              0 \<le> ix' ! nat (out_index l k i j) \<and> ix' ! nat (out_index l k i j) < n_inputs l \<and>
              (\<exists>idx. max_pool l h input (int i) (int j) (int k) = Inr idx \<and>
                 0 \<le> idx \<and> idx < n_inputs l))"
proof -
  let ?C = "nat (channels l)" and ?H = "nat (out_h l)" and ?W = "nat (out_w l)"
  let ?I = "pool_heap_inv l input xs a b (length ix)"
  let ?T3 = "\<lambda>k i j. {nat (out_index l k i j)}"
  let ?T2 = "\<lambda>k i. \<Union>j<?W. ?T3 k i j"
  let ?T1 = "\<lambda>k. \<Union>i<?H. ?T2 k i"
  have hit: "window_hits l (int i) (int j)" if "i < ?H" "j < ?W" for i j
    using win that by (simp add: windows_ok_def list_all_iff)
  have cell: "\<exists>h'. maxpool_forward_cell l input k i j s = Inr h' \<and> ?I (S \<union> ?T3 k i j) h'"
    if "k < ?C" "i < ?H" "j < ?W" "?I S s" for k i j S s
    using geom inp(2) big hit [OF that(2,3)] bufs(1,3) len(2) sep that
    by (rule maxpool_forward_cell_inv)
  have row: "\<exists>h'. forE [0..<?W] (\<lambda>j. maxpool_forward_cell l input k i j) s = Inr h' \<and>
               ?I (S \<union> ?T2 k i) h'"
    if "k < ?C" "i < ?H" "?I S s" for k i S s
    by (rule forE_upt_union_rule [where I = ?I and T = "?T3 k i"]) (use that cell in auto)
  have plane: "\<exists>h'. forE [0..<?H] (\<lambda>i. forE [0..<?W] (\<lambda>j. maxpool_forward_cell l input k i j)) s
                  = Inr h' \<and> ?I (S \<union> ?T1 k) h'"
    if "k < ?C" "?I S s" for k S s
    by (rule forE_upt_union_rule [where I = ?I and T = "?T2 k"]) (use that row in auto)
  have start: "?I {} h"
    using inp(1) bufs len by (simp add: pool_heap_inv_def)
  have "\<exists>h'. neural_layer_maxpool_forward l input h = Inr h' \<and> ?I ({} \<union> (\<Union>k<?C. ?T1 k)) h'"
    unfolding neural_layer_maxpool_forward_def
    by (rule forE_upt_union_rule [where I = ?I and T = ?T1]) (use start plane in auto)
  then obtain h' ix' where r: "neural_layer_maxpool_forward l input h = Inr h'"
    "imem h' a = Some ix'" "length ix' = length ix"
    "\<forall>c\<in>(\<Union>k<?C. ?T1 k). 0 \<le> ix' ! c \<and> ix' ! c < n_inputs l"
    unfolding pool_heap_inv_def by auto
  have "0 \<le> ix' ! nat (out_index l k i j) \<and> ix' ! nat (out_index l k i j) < n_inputs l \<and>
        (\<exists>idx. max_pool l h input (int i) (int j) (int k) = Inr idx \<and> 0 \<le> idx \<and> idx < n_inputs l)"
    if "k < ?C" "i < ?H" "j < ?W" for k i j
  proof -
    have "nat (out_index l k i j) \<in> (\<Union>k<?C. ?T1 k)" using that by auto
    then have a: "0 \<le> ix' ! nat (out_index l k i j) \<and> ix' ! nat (out_index l k i j) < n_inputs l"
      using r(4) by blast
    have kk: "0 \<le> int k" "int k < channels l" using that(1) by linarith+
    from max_pool_in_range [OF geom inp big kk hit [OF that(2,3)]] a show ?thesis by blast
  qed
  then show ?thesis using r(1,2,3) by blast
qed

lemma DBL_MAX_pos: "0 < DBL_MAX"
  by (simp add: DBL_MAX_def)

lemma upt_one: "[0..<nat 1] = [0]"
  by simp

lemma upt_two: "[0..<2] = [0, Suc 0]"
  by (simp add: upt_rec numeral_2_eq_2)

text \<open>
  C9 as stated fails at the finite double \<open>-DBL_MAX\<close>: the comparison
  \<open>input[index] > max\<close> is strict and \<open>max\<close> starts at \<open>-DBL_MAX\<close>, so on a 1 x 1 layer whose
  only input cell is \<open>-DBL_MAX\<close> \<open>max_pool\<close> returns \<open>-1\<close>, and the forward pass reads
  \<open>input[-1]\<close>.
\<close>

theorem max_pool_lowest_double_counterexample:
  "windows_ok ex_maxpool1 \<and> finite_doubles [- DBL_MAX] \<and>
   n_inputs ex_maxpool1 = height ex_maxpool1 * width ex_maxpool1 * channels ex_maxpool1 \<and>
   max_pool ex_maxpool1 ex_heap (Arr [- DBL_MAX]) 0 0 0 = Inr (- 1) \<and>
   neural_layer_maxpool_forward ex_maxpool1 (Arr [- DBL_MAX]) ex_heap = Inl Segv"
proof -
  have f: "size ex_maxpool1 = 1" "pad ex_maxpool1 = 0" "stride ex_maxpool1 = 1"
    "height ex_maxpool1 = 1" "width ex_maxpool1 = 1" "channels ex_maxpool1 = 1"
    "out_h ex_maxpool1 = 1" "out_w ex_maxpool1 = 1" "n_inputs ex_maxpool1 = 1"
    "indexes ex_maxpool1 = Some 0" "output ex_maxpool1 = Some 1"
    by (simp_all add: ex_maxpool1_def zero_layer_def)
  have w: "windows_ok ex_maxpool1"
    by (simp add: windows_ok_def window_hits_def in_grid_def cur_pos_def c_div_def f)
  have d: "finite_doubles [- DBL_MAX]"
    using DBL_MAX_pos by (simp add: finite_doubles_def)
  have m: "max_pool ex_maxpool1 h (Arr [- DBL_MAX]) 0 0 0 = Inr (- 1)" for h
    by (simp add: max_pool_def max_pool_cell_def c_div_def f bindE_def peek_r_def deref_r_def
        rd_def)
  have "neural_layer_maxpool_forward ex_maxpool1 (Arr [- DBL_MAX]) ex_heap = Inl Segv"
    by (simp add: neural_layer_maxpool_forward_def maxpool_forward_cell_def f m bindE_def
        poke_i_def deref_i_def ex_heap_def wr_def store_i_def peek_r_def deref_r_def rd_def)
  then show ?thesis using w d m f by simp
qed

theorem neural_layer_maxpool_forward_indexes_witness:
  "\<exists>h' ix'. neural_layer_maxpool_forward ex_maxpool (Arr [1, 5, 3, 2]) ex_heap = Inr h' \<and>
      imem h' 0 = Some ix' \<and> 0 \<le> ix' ! 0 \<and> ix' ! 0 < 4 \<and>
      (\<exists>idx. max_pool ex_maxpool ex_heap (Arr [1, 5, 3, 2]) 0 0 0 = Inr idx \<and> 0 \<le> idx \<and> idx < 4)"
proof -
  have f: "size ex_maxpool = 2" "pad ex_maxpool = 0" "stride ex_maxpool = 1"
    "height ex_maxpool = 2" "width ex_maxpool = 2" "channels ex_maxpool = 1"
    "out_h ex_maxpool = 1" "out_w ex_maxpool = 1" "n_inputs ex_maxpool = 4"
    "indexes ex_maxpool = Some 0" "output ex_maxpool = Some 1"
    by (simp_all add: ex_maxpool_def zero_layer_def)
  have geom: "n_inputs ex_maxpool = height ex_maxpool * width ex_maxpool * channels ex_maxpool"
    by (simp add: f)
  have inp: "deref_r ex_heap (Arr [1, 5, 3, 2]) = Inr [1, 5, 3, 2]"
    "nat (n_inputs ex_maxpool) \<le> length [1, 5, 3, 2 :: real]"
    by (simp_all add: deref_r_def f)
  have big: "\<forall>x\<in>set [1, 5, 3, 2 :: real]. - DBL_MAX < x"
    using DBL_MAX_pos by simp
  have win: "windows_ok ex_maxpool"
    by (simp add: windows_ok_def window_hits_def in_grid_def cur_pos_def c_div_def f upt_two)
  have bufs: "indexes ex_maxpool = Some 0" "imem ex_heap 0 = Some [3]"
    "output ex_maxpool = Some 1" "dmem ex_heap 1 = Some [7]"
    by (simp_all add: f ex_heap_def)
  have len: "length [3 :: int] = length [7 :: real]"
    "out_h ex_maxpool * out_w ex_maxpool * channels ex_maxpool \<le> int (length [3 :: int])"
    by (simp_all add: f)
  have sep: "Arr [1, 5, 3, 2] \<noteq> Ptr (Some 1)" by simp
  from neural_layer_maxpool_forward_indexes [OF geom inp big win bufs len sep]
  obtain h' ix' where r: "neural_layer_maxpool_forward ex_maxpool (Arr [1, 5, 3, 2]) ex_heap = Inr h'"
    "imem h' 0 = Some ix'"
    "\<forall>k<nat (channels ex_maxpool). \<forall>i<nat (out_h ex_maxpool). \<forall>j<nat (out_w ex_maxpool).
        0 \<le> ix' ! nat (out_index ex_maxpool k i j) \<and>
        ix' ! nat (out_index ex_maxpool k i j) < n_inputs ex_maxpool \<and>
        (\<exists>idx. max_pool ex_maxpool ex_heap (Arr [1, 5, 3, 2]) (int i) (int j) (int k) = Inr idx \<and>
           0 \<le> idx \<and> idx < n_inputs ex_maxpool)"
    by blast
  from r(3) [rule_format, of 0 0 0] have
    "0 \<le> ix' ! 0 \<and> ix' ! 0 < 4 \<and>
      (\<exists>idx. max_pool ex_maxpool ex_heap (Arr [1, 5, 3, 2]) 0 0 0 = Inr idx \<and> 0 \<le> idx \<and> idx < 4)"
    by (simp add: f out_index_def)
  with r(1,2) show ?thesis by blast
qed

section \<open>Properties of mutation\<close>

lemma type_consts: "DROPOUT \<noteq> MAXPOOL" "DROPOUT \<noteq> 0" "MAXPOOL \<noteq> 0"
  by (simp_all add: DROPOUT_def MAXPOOL_def)

text \<open>
  C2. \<open>neural_mutate\<close> does not restore the chain of widths. In \<open>ex_net3\<close> the widths
  agree. The mutation grows the first layer from 3 to 4 outputs; the dropout layer above
  is resized to 4 inputs and 4 outputs; its own \<open>n_outputs\<close> is read only after that
  resize and its mutation reports no change, so \<open>do_resize\<close> is false for the third
  layer, which keeps \<open>n_inputs = 3\<close> below a layer that now puts out 4. The resize entry
  of the absent layer types is never called on this net, whatever it is.
\<close>

theorem neural_mutate_breaks_widths:
  "widths_consistent (layers ex_net3) \<and>
   (\<exists>net' h'. neural_mutate (ex_ext\<lparr>x_resize := r\<rparr>) ex_net3 ex_heap = Inr (True, net', h') \<and>
      map n_inputs (layers net') = [2, 4, 3] \<and> map n_outputs (layers net') = [4, 4, 2] \<and>
      \<not> widths_consistent (layers net'))"
  by (simp add: ex_net3_def neural_mutate_def bindE_def layer_mutate_def layer_resize_def
      neural_layer_dropout_mutate_def neural_layer_dropout_resize_def realloc_d_def free_d_def
      ex_ext_def grow_def ex_dropout_def zero_layer_def type_consts Let_def ex_heap_def)

section \<open>Properties of copying\<close>


lemma insert_at_end:
  assumes "p = int (length (layers net))"
  shows "neural_layer_insert net l p =
           Inr (net\<lparr>layers := layers net @ [l], n_layers := n_layers net + 1,
                    net_n_inputs := (if layers net = [] then n_inputs l else net_n_inputs net),
                    net_n_outputs := n_outputs l, net_output := output l\<rparr>)"
  using assms by (simp add: neural_layer_insert_def walk_tail Let_def)






section \<open>Two forward passes side by side\<close>

text \<open>
  Two loops run in lockstep keep a relation between their states if each pair of steps
  does; \<open>forE_rel_union\<close> is the form for a relation indexed by the set of cells done.
\<close>

lemma forE_rel_list:
  assumes "R 0 s t"
    and "\<And>k s t. k < length is \<Longrightarrow> R k s t \<Longrightarrow> rel_sum (=) (R (Suc k)) (f (is ! k) s) (g (is ! k) t)"
  shows "rel_sum (=) (R (length is)) (forE is f s) (forE is g t)"
  using assms
proof (induction "is" arbitrary: R s t)
  case Nil
  then show ?case by simp
next
  case (Cons j js)
  from Cons.prems(2) [of 0 s t] Cons.prems(1)
  have first: "rel_sum (=) (R (Suc 0)) (f j s) (g j t)" by simp
  show ?case
  proof (cases "f j s")
    case (Inl e)
    with first have "g j t = Inl e" by (cases "g j t") simp_all
    with Inl show ?thesis by simp
  next
    case (Inr s1)
    with first obtain t1 where t1: "g j t = Inr t1" "R (Suc 0) s1 t1"
      by (cases "g j t") simp_all
    have "rel_sum (=) ((\<lambda>k. R (Suc k)) (length js)) (forE js f s1) (forE js g t1)"
    proof (rule Cons.IH)
      show "R (Suc 0) s1 t1" by (rule t1(2))
      show "\<And>k s t. k < length js \<Longrightarrow> R (Suc k) s t \<Longrightarrow>
              rel_sum (=) (R (Suc (Suc k))) (f (js ! k) s) (g (js ! k) t)"
        using Cons.prems(2) by fastforce
    qed
    then show ?thesis using Inr t1(1) by simp
  qed
qed

lemma forE_rel_union:
  assumes "R S s t"
    and "\<And>j S' s t. j < n \<Longrightarrow> R S' s t \<Longrightarrow> rel_sum (=) (R (S' \<union> T j)) (f j s) (g j t)"
  shows "rel_sum (=) (R (S \<union> (\<Union>j<n. T j))) (forE [0..<n] f s) (forE [0..<n] g t)"
proof -
  let ?Q = "\<lambda>k s t. R (S \<union> (\<Union>j<k. T j)) s t"
  have "rel_sum (=) (?Q (length [0..<n])) (forE [0..<n] f s) (forE [0..<n] g t)"
  proof (rule forE_rel_list [where R = ?Q])
    show "?Q 0 s t" using assms(1) by simp
  next
    fix k s t assume k: "k < length [0..<n]" and Q: "?Q k s t"
    have e: "(S \<union> (\<Union>j<k. T j)) \<union> T k = S \<union> (\<Union>j<Suc k. T j)"
      by (auto simp: less_Suc_eq)
    from assms(2) [of k "S \<union> (\<Union>j<k. T j)" s t] k Q
    have "rel_sum (=) (R ((S \<union> (\<Union>j<k. T j)) \<union> T k)) (f k s) (g k t)" by simp
    then show "rel_sum (=) (?Q (Suc k)) (f ([0..<n] ! k) s) (g ([0..<n] ! k) t)"
      using k unfolding e by simp
  qed
  then show ?thesis by simp
qed

lemma grid_cover_nat:
  fixes c w h n :: nat
  assumes "c < h * w * n"
  shows "\<exists>k<n. \<exists>i<h. \<exists>j<w. c = j + w * (i + h * k)"
proof -
  have w: "0 < w" and h: "0 < h" using assms by (auto intro: Nat.gr0I)
  let ?q = "c div w"
  have "c < w * (h * n)" using assms by (simp add: mult.assoc mult.left_commute)
  then have q: "?q < h * n" using w by (simp add: less_mult_imp_div_less mult.commute)
  then have k: "?q div h < n" using h by (simp add: less_mult_imp_div_less mult.commute)
  have i: "?q mod h < h" using h by simp
  have j: "c mod w < w" using w by simp
  have "c = c mod w + w * (?q mod h + h * (?q div h))" by simp
  with k i j show ?thesis by blast
qed

lemma out_index_cover:
  assumes "0 \<le> out_h l" "0 \<le> out_w l" "0 \<le> channels l"
    and "c < nat (out_h l * out_w l * channels l)"
  shows "\<exists>k<nat (channels l). \<exists>i<nat (out_h l). \<exists>j<nat (out_w l). c = nat (out_index l k i j)"
proof -
  let ?h = "nat (out_h l)" and ?w = "nat (out_w l)" and ?n = "nat (channels l)"
  have "nat (out_h l * out_w l * channels l) = ?h * ?w * ?n"
    using assms(1,2,3) by (simp add: nat_mult_distrib)
  with assms(4) have "c < ?h * ?w * ?n" by simp
  from grid_cover_nat [OF this] obtain k i j where
    r: "k < ?n" "i < ?h" "j < ?w" "c = j + ?w * (i + ?h * k)" by blast
  have hw: "int ?w = out_w l" "int ?h = out_h l" using assms(1,2) by simp_all
  have "out_index l k i j = int j + int ?w * (int i + int ?h * int k)"
    by (simp only: out_index_def hw)
  also have "\<dots> = int (j + ?w * (i + ?h * k))"
    by (simp only: of_nat_add of_nat_mult)
  finally have "nat (out_index l k i j) = j + ?w * (i + ?h * k)"
    by (simp only: nat_int)
  then have "c = nat (out_index l k i j)" using r(4) by (simp only:)
  with r(1,2,3) show ?thesis by blast
qed

lemma max_pool_cong:
  assumes "size l1 = size l2" "pad l1 = pad l2" "stride l1 = stride l2"
    "width l1 = width l2" "height l1 = height l2"
    and "deref_r h1 in1 = deref_r h2 in2"
  shows "max_pool l1 h1 in1 i j k = max_pool l2 h2 in2 i j k"
proof -
  have pk: "peek_r h1 in1 = peek_r h2 in2" using assms(6) by (simp add: fun_eq_iff peek_r_def)
  have cp: "cur_pos l1 = cur_pos l2" using assms(2,3) by (simp add: fun_eq_iff cur_pos_def)
  have ig: "in_grid l1 = in_grid l2" using assms(4,5) cp by (simp add: fun_eq_iff in_grid_def)
  have "max_pool_cell l1 h1 in1 i j k n m acc = max_pool_cell l2 h2 in2 i j k n m acc"
    for n m acc
    by (simp only: max_pool_cell_eq pk cp ig assms(4,5))
  then have "max_pool_cell l1 h1 in1 i j k = max_pool_cell l2 h2 in2 i j k"
    by (simp add: fun_eq_iff)
  then show ?thesis using assms(1) by (simp add: max_pool_def)
qed

lemma maxpool_forward_cell_form:
  assumes "output l = Some a" "indexes l = Some b" "dmem h a = Some out" "imem h b = Some ix"
    and "length out = len" "length ix = len"
  shows "maxpool_forward_cell l input k i j h =
           (case max_pool l h input (int i) (int j) (int k) of
              Inl e \<Rightarrow> Inl e
            | Inr mi \<Rightarrow>
                if 0 \<le> out_index l k i j \<and> nat (out_index l k i j) < len
                then (case peek_r h input mi of
                        Inl e \<Rightarrow> Inl e
                      | Inr v \<Rightarrow>
                          Inr (h\<lparr>imem := (imem h)(b \<mapsto> ix[nat (out_index l k i j) := mi]),
                                 dmem := (dmem h)(a \<mapsto> out[nat (out_index l k i j) := v])\<rparr>))
                else Inl Segv)"
proof (cases "max_pool l h input (int i) (int j) (int k)")
  case (Inl e)
  then show ?thesis
    by (simp add: maxpool_forward_cell_def bindE_def out_index_def [symmetric] Let_def)
next
  case (Inr mi)
  let ?oi = "out_index l k i j"
  show ?thesis
  proof (cases "0 \<le> ?oi \<and> nat ?oi < len")
    case False
    then have "poke_i (indexes l) ?oi mi h = Inl Segv"
      using assms by (auto simp: poke_i_def bindE_def deref_i_def wr_def)
    then show ?thesis using Inr False
      by (auto simp: maxpool_forward_cell_def bindE_def out_index_def [symmetric] Let_def)
  next
    case True
    let ?h1 = "h\<lparr>imem := (imem h)(b \<mapsto> ix[nat ?oi := mi])\<rparr>"
    have p1: "poke_i (indexes l) ?oi mi h = Inr ?h1"
      using assms True by (simp add: poke_i_int)
    have p2: "peek_r ?h1 input mi = peek_r h input mi"
      by (simp add: peek_r_def deref_r_imem)
    have p3: "poke_d (output l) ?oi v ?h1 =
                Inr (?h1\<lparr>dmem := (dmem ?h1)(a \<mapsto> out[nat ?oi := v])\<rparr>)" for v
      using assms True by (simp add: poke_d_int)
    show ?thesis using Inr True p1 p2 p3
      by (simp add: maxpool_forward_cell_def bindE_def out_index_def [symmetric] Let_def
          split: sum.splits)
  qed
qed

lemma shape_dmem: "shape h = shape g \<Longrightarrow> dmem g a = Some xs \<Longrightarrow>
    \<exists>ys. dmem h a = Some ys \<and> length ys = length xs"
  by (auto simp: shape_def fun_eq_iff map_option_case split: option.splits dest!: spec [of _ a])

lemma shape_imem: "shape h = shape g \<Longrightarrow> imem g a = Some xs \<Longrightarrow>
    \<exists>ys. imem h a = Some ys \<and> length ys = length xs"
  by (auto simp: shape_def fun_eq_iff map_option_case split: option.splits dest!: spec [of _ a])

lemma shape_update:
  assumes "imem h b = Some ix" "length ix' = length ix" "dmem h a = Some out"
    "length out' = length out"
  shows "shape (h\<lparr>imem := (imem h)(b \<mapsto> ix'), dmem := (dmem h)(a \<mapsto> out')\<rparr>) = shape h"
  using assms by (auto simp: shape_def fun_eq_iff)

lemma shape_update_d:
  assumes "dmem h a = Some out" "length out' = length out"
  shows "shape (h\<lparr>dmem := (dmem h)(a \<mapsto> out')\<rparr>) = shape h"
  using assms by (auto simp: shape_def fun_eq_iff)

lemma wf_maxpool_arrays:
  assumes "layer_wf g l" "layer_type l = MAXPOOL" "shape h = shape g"
  shows "\<exists>a b out ix. output l = Some a \<and> indexes l = Some b \<and> dmem h a = Some out \<and>
           imem h b = Some ix \<and> length out = nat (n_outputs l) \<and> length ix = nat (n_outputs l)"
proof -
  from assms(1,2) type_consts obtain a b out ix where w: "output l = Some a" "indexes l = Some b"
    "dmem g a = Some out" "imem g b = Some ix" "length out = nat (n_outputs l)"
    "length ix = nat (n_outputs l)"
    unfolding layer_wf_def by auto
  from shape_dmem [OF assms(3) w(3)] shape_imem [OF assms(3) w(4)] w show ?thesis by auto
qed

lemma same_config_maxpool:
  assumes "same_config l1 l2" "layer_type l1 = MAXPOOL"
  shows "layer_type l2 = MAXPOOL" "size l2 = size l1" "pad l2 = pad l1" "stride l2 = stride l1"
    "width l2 = width l1" "height l2 = height l1" "out_w l2 = out_w l1" "out_h l2 = out_h l1"
    "channels l2 = channels l1" "n_outputs l2 = n_outputs l1" "n_inputs l2 = n_inputs l1"
  using assms type_consts by (auto simp: same_config_def)

lemma maxpool_forward_cell_rel:
  assumes cfg: "same_config l1 l2" "layer_type l1 = MAXPOOL"
    and wf: "layer_wf g1 l1" "layer_wf g2 l2"
    and inp: "deref_r g1 in1 = deref_r g2 in2" "in1 \<noteq> Ptr (output l1)" "in2 \<noteq> Ptr (output l2)"
    and rel: "pool_rel l1 l2 in1 in2 g1 g2 S h1 h2"
  shows "rel_sum (=) (pool_rel l1 l2 in1 in2 g1 g2 (S \<union> {nat (out_index l1 k i j)}))
           (maxpool_forward_cell l1 in1 k i j h1) (maxpool_forward_cell l2 in2 k i j h2)"
proof -
  note c = same_config_maxpool [OF cfg]
  from rel have sh: "shape h1 = shape g1" "shape h2 = shape g2"
    and dr: "deref_r h1 in1 = deref_r g1 in1" "deref_r h2 in2 = deref_r g2 in2"
    unfolding pool_rel_def by auto
  let ?len = "nat (n_outputs l1)"
  from wf_maxpool_arrays [OF wf(1) cfg(2) sh(1)]
  obtain a1 b1 o1 x1 where A1: "output l1 = Some a1" "indexes l1 = Some b1" "dmem h1 a1 = Some o1"
    "imem h1 b1 = Some x1" "length o1 = ?len" "length x1 = ?len" by blast
  from wf_maxpool_arrays [OF wf(2) c(1) sh(2)] c(10)
  obtain a2 b2 o2 x2 where A2: "output l2 = Some a2" "indexes l2 = Some b2" "dmem h2 a2 = Some o2"
    "imem h2 b2 = Some x2" "length o2 = ?len" "length x2 = ?len" by auto
  from rel A1 A2 have agree: "\<forall>c\<in>S. o1 ! c = o2 ! c"
    unfolding pool_rel_def by (auto simp: deref_d_def)
  have din: "deref_r h1 in1 = deref_r h2 in2" using dr inp(1) by simp
  have mp: "max_pool l1 h1 in1 (int i) (int j) (int k) = max_pool l2 h2 in2 (int i) (int j) (int k)"
    using c din by (intro max_pool_cong) simp_all
  have oi: "out_index l2 k i j = out_index l1 k i j" using c by (simp add: out_index_def)
  have pk: "peek_r h1 in1 = peek_r h2 in2" using din by (simp add: fun_eq_iff peek_r_def)
  note f1 = maxpool_forward_cell_form [OF A1, of in1 k i j]
  note f2 = maxpool_forward_cell_form [OF A2, of in2 k i j]
  let ?oi = "nat (out_index l1 k i j)"
  show ?thesis
  proof (cases "max_pool l2 h2 in2 (int i) (int j) (int k)")
    case (Inl e)
    then show ?thesis unfolding f1 f2 mp by simp
  next
    case (Inr mi)
    show ?thesis
    proof (cases "0 \<le> out_index l1 k i j \<and> ?oi < ?len")
      case False
      then show ?thesis unfolding f1 f2 mp oi using Inr by auto
    next
      case True
      show ?thesis
      proof (cases "peek_r h2 in2 mi")
        case (Inl e)
        then show ?thesis unfolding f1 f2 mp oi pk using Inr True by simp
      next
        case v: (Inr v)
        let ?k1 = "h1\<lparr>imem := (imem h1)(b1 \<mapsto> x1[?oi := mi]), dmem := (dmem h1)(a1 \<mapsto> o1[?oi := v])\<rparr>"
        let ?k2 = "h2\<lparr>imem := (imem h2)(b2 \<mapsto> x2[?oi := mi]), dmem := (dmem h2)(a2 \<mapsto> o2[?oi := v])\<rparr>"
        have s1: "shape ?k1 = shape g1"
          using shape_update [OF A1(4) _ A1(3), of "x1[?oi := mi]" "o1[?oi := v]"] sh(1) by simp
        have s2: "shape ?k2 = shape g2"
          using shape_update [OF A2(4) _ A2(3), of "x2[?oi := mi]" "o2[?oi := v]"] sh(2) by simp
        have d1: "deref_r ?k1 in1 = deref_r g1 in1"
          using dr(1) inp(2) A1(1)
          by (cases in1) (auto simp: deref_r_def deref_d_def split: option.splits)
        have d2: "deref_r ?k2 in2 = deref_r g2 in2"
          using dr(2) inp(3) A2(1)
          by (cases in2) (auto simp: deref_r_def deref_d_def split: option.splits)
        have ag: "\<forall>c\<in>S \<union> {?oi}. o1[?oi := v] ! c = o2[?oi := v] ! c"
          using agree True A1(5) A2(5) by (auto simp: nth_list_update)
        have "pool_rel l1 l2 in1 in2 g1 g2 (S \<union> {?oi}) ?k1 ?k2"
          unfolding pool_rel_def using s1 s2 d1 d2 ag A1(1) A2(1) by (simp add: deref_d_def)
        then show ?thesis unfolding f1 f2 mp oi pk using Inr True v by simp
      qed
    qed
  qed
qed

lemma rel_sum_weaken:
  assumes "rel_sum (=) R x y" and "\<And>a b. R a b \<Longrightarrow> R' a b"
  shows "rel_sum (=) R' x y"
  using assms by (cases x; cases y) simp_all

lemma maxpool_forward_rel:
  assumes cfg: "same_config l1 l2" "layer_type l1 = MAXPOOL"
    and wf: "layer_wf g1 l1" "layer_wf g2 l2"
    and inp: "deref_r g1 in1 = deref_r g2 in2" "in1 \<noteq> Ptr (output l1)" "in2 \<noteq> Ptr (output l2)"
  shows "rel_sum (=) (fwd_rel l1 l2 g1 g2)
           (neural_layer_maxpool_forward l1 in1 g1) (neural_layer_maxpool_forward l2 in2 g2)"
proof -
  note c = same_config_maxpool [OF cfg]
  let ?C = "nat (channels l1)" and ?H = "nat (out_h l1)" and ?W = "nat (out_w l1)"
  let ?R = "pool_rel l1 l2 in1 in2 g1 g2"
  let ?T3 = "\<lambda>k i j. {nat (out_index l1 k i j)}"
  let ?T2 = "\<lambda>k i. \<Union>j<?W. ?T3 k i j"
  let ?T1 = "\<lambda>k. \<Union>i<?H. ?T2 k i"
  let ?len = "nat (n_outputs l1)"
  from wf_maxpool_arrays [OF wf(1) cfg(2) refl]
  obtain a1 b1 o1 x1 where A1: "output l1 = Some a1" "dmem g1 a1 = Some o1" by blast
  from wf_maxpool_arrays [OF wf(2) c(1) refl]
  obtain a2 b2 o2 x2 where A2: "output l2 = Some a2" "dmem g2 a2 = Some o2" by blast
  have start: "?R {} g1 g2"
    unfolding pool_rel_def using A1 A2 by (simp add: deref_d_def)
  have cell: "rel_sum (=) (?R (S \<union> ?T3 k i j))
                (maxpool_forward_cell l1 in1 k i j s) (maxpool_forward_cell l2 in2 k i j t)"
    if "?R S s t" for k i j S s t
    using cfg wf inp that by (rule maxpool_forward_cell_rel)
  have row: "rel_sum (=) (?R (S \<union> ?T2 k i))
               (forE [0..<?W] (\<lambda>j. maxpool_forward_cell l1 in1 k i j) s)
               (forE [0..<?W] (\<lambda>j. maxpool_forward_cell l2 in2 k i j) t)"
    if "?R S s t" for k i S s t
    by (rule forE_rel_union [where R = ?R and T = "?T3 k i"]) (use that cell in auto)
  have plane: "rel_sum (=) (?R (S \<union> ?T1 k))
               (forE [0..<?H] (\<lambda>i. forE [0..<?W] (\<lambda>j. maxpool_forward_cell l1 in1 k i j)) s)
               (forE [0..<?H] (\<lambda>i. forE [0..<?W] (\<lambda>j. maxpool_forward_cell l2 in2 k i j)) t)"
    if "?R S s t" for k S s t
    by (rule forE_rel_union [where R = ?R and T = "?T2 k"]) (use that row in auto)
  have all: "rel_sum (=) (?R ({} \<union> (\<Union>k<?C. ?T1 k)))
               (neural_layer_maxpool_forward l1 in1 g1) (neural_layer_maxpool_forward l2 in2 g2)"
    unfolding neural_layer_maxpool_forward_def c
    by (rule forE_rel_union [where R = ?R and T = ?T1]) (use start plane in auto)
  have fin: "fwd_rel l1 l2 g1 g2 s t" if R: "?R ({} \<union> (\<Union>k<?C. ?T1 k)) s t" for s t
  proof -
    from R have sh: "shape s = shape g1" "shape t = shape g2" unfolding pool_rel_def by auto
    from wf_maxpool_arrays [OF wf(1) cfg(2) sh(1)]
    obtain a b p x where P: "output l1 = Some a" "dmem s a = Some p" "length p = ?len" by blast
    from wf_maxpool_arrays [OF wf(2) c(1) sh(2)] c(10)
    obtain a' b' q x' where Q: "output l2 = Some a'" "dmem t a' = Some q" "length q = ?len"
      by auto
    from R P Q have ag: "\<forall>c\<in>(\<Union>k<?C. ?T1 k). p ! c = q ! c"
      unfolding pool_rel_def by (auto simp: deref_d_def)
    from wf(1) cfg(2) type_consts have geo: "n_outputs l1 = out_h l1 * out_w l1 * channels l1"
      "0 \<le> out_h l1" "0 \<le> out_w l1" "0 \<le> channels l1"
      unfolding layer_wf_def by auto
    have "p ! c = q ! c" if "c < ?len" for c
    proof -
      from that geo(1) have "c < nat (out_h l1 * out_w l1 * channels l1)" by simp
      from out_index_cover [OF geo(2,3,4) this]
      have "c \<in> (\<Union>k<?C. ?T1 k)" by auto
      with ag show ?thesis by blast
    qed
    then have "p = q" using P(3) Q(3) by (intro nth_equalityI) simp_all
    then show ?thesis unfolding fwd_rel_def using sh P Q by (simp add: deref_d_def)
  qed
  from all fin show ?thesis by (rule rel_sum_weaken)
qed

lemma dropout_forward_rel:
  assumes cfg: "same_config l1 l2" "layer_type l1 = DROPOUT"
    and wf: "layer_wf g1 l1" "layer_wf g2 l2"
    and inp: "deref_r g1 in1 = deref_r g2 in2"
    and ex: "\<not> explore X"
  shows "rel_sum (=) (fwd_rel l1 l2 g1 g2)
           (neural_layer_dropout_forward X rnd l1 in1 g1)
           (neural_layer_dropout_forward X rnd' l2 in2 g2)"
proof -
  from cfg have c: "layer_type l2 = DROPOUT" "n_inputs l2 = n_inputs l1"
    by (auto simp: same_config_def)
  let ?n = "nat (n_inputs l1)"
  from wf(1) cfg(2) obtain a1 o1 where A1: "output l1 = Some a1" "dmem g1 a1 = Some o1"
    "length o1 = ?n" unfolding layer_wf_def by auto
  from wf(2) c obtain a2 o2 where A2: "output l2 = Some a2" "dmem g2 a2 = Some o2"
    "length o2 = ?n" unfolding layer_wf_def by auto
  show ?thesis
  proof (cases "deref_r g2 in2")
    case (Inl e)
    then show ?thesis using ex inp A1 A2
      by (simp add: neural_layer_dropout_forward_def memcpy_d_def bindE_def deref_d_def)
  next
    case (Inr xs)
    show ?thesis
    proof (cases "0 \<le> n_inputs l1 \<and> ?n \<le> length xs")
      case False
      then show ?thesis using ex inp Inr A1 A2 c
        by (auto simp: neural_layer_dropout_forward_def memcpy_d_def bindE_def deref_d_def)
    next
      case True
      have s1: "shape (g1\<lparr>dmem := (dmem g1)(a1 \<mapsto> take ?n xs @ drop ?n o1)\<rparr>) = shape g1"
        using A1 True by (intro shape_update_d) auto
      have s2: "shape (g2\<lparr>dmem := (dmem g2)(a2 \<mapsto> take ?n xs @ drop ?n o2)\<rparr>) = shape g2"
        using A2 True by (intro shape_update_d) auto
      show ?thesis using ex inp Inr A1 A2 c True s1 s2
        by (simp add: neural_layer_dropout_forward_def memcpy_d_def bindE_def deref_d_def
            store_d_def fwd_rel_def)
    qed
  qed
qed

lemma layer_wf_shape: "shape h = shape g \<Longrightarrow> layer_wf g l \<Longrightarrow> layer_wf h l"
  unfolding layer_wf_def
  by (auto dest: shape_dmem [of h g] shape_imem [of h g]) (metis shape_dmem shape_imem)+

lemma layer_wf_type: "layer_wf g l \<Longrightarrow> layer_type l = DROPOUT \<or> layer_type l = MAXPOOL"
  by (auto simp: layer_wf_def split: if_splits)

lemma layer_forward_rel:
  assumes cfg: "same_config l1 l2"
    and wf: "layer_wf g1 l1" "layer_wf g2 l2"
    and inp: "deref_r g1 in1 = deref_r g2 in2" "in1 \<noteq> Ptr (output l1)" "in2 \<noteq> Ptr (output l2)"
    and ex: "\<not> explore X"
  shows "rel_sum (=) (fwd_rel l1 l2 g1 g2)
           (layer_forward E X rnd l1 in1 g1) (layer_forward E X rnd' l2 in2 g2)"
proof -
  have t2: "layer_type l2 = layer_type l1" using cfg by (simp add: same_config_def)
  from layer_wf_type [OF wf(1)] show ?thesis
  proof
    assume d: "layer_type l1 = DROPOUT"
    then show ?thesis
      using dropout_forward_rel [OF cfg d wf inp(1) ex] t2 by (simp add: layer_forward_def)
  next
    assume m: "layer_type l1 = MAXPOOL"
    then show ?thesis
      using maxpool_forward_rel [OF cfg m wf inp] t2 type_consts by (simp add: layer_forward_def)
  qed
qed

lemma propagate_rel:
  assumes "list_all2 same_config ls1 ls2"
    and "\<forall>l\<in>set ls1. layer_wf g1 l" "\<forall>l\<in>set ls2. layer_wf g2 l"
    and "deref_r g1 in1 = deref_r g2 in2"
    and "chain_sep in1 ls1" "chain_sep in2 ls2"
    and "\<not> explore X"
  shows "rel_sum (=) (\<lambda>h1 h2. deref_r h1 (final_ref in1 ls1) = deref_r h2 (final_ref in2 ls2))
           (propagate_loop E X rnd k ls1 in1 g1) (propagate_loop E X rnd' k ls2 in2 g2)"
  using assms
proof (induction ls1 ls2 arbitrary: in1 in2 g1 g2 k rule: list_all2_induct)
  case Nil
  then show ?case by (simp add: final_ref_def)
next
  case (Cons l1 ls1 l2 ls2)
  have wf: "layer_wf g1 l1" "layer_wf g2 l2" using Cons.prems by simp_all
  have sep: "in1 \<noteq> Ptr (output l1)" "in2 \<noteq> Ptr (output l2)" using Cons.prems by simp_all
  note fr = layer_forward_rel [OF Cons.hyps(1) wf Cons.prems(3) sep Cons.prems(6),
      of E "rnd k" "rnd' k"]
  have t2: "layer_type l2 = layer_type l1" using Cons.hyps(1) by (simp add: same_config_def)
  have lo: "layer_output E l1 = output l1" "layer_output E l2 = output l2"
    using layer_wf_type [OF wf(1)] t2 by (auto simp: layer_output_def)
  have fin: "final_ref in1 (l1 # ls1) = final_ref (Ptr (output l1)) ls1"
    "final_ref in2 (l2 # ls2) = final_ref (Ptr (output l2)) ls2"
    by (simp_all add: final_ref_def)
  show ?case
  proof (cases "layer_forward E X (rnd k) l1 in1 g1")
    case (Inl e)
    with fr have "layer_forward E X (rnd' k) l2 in2 g2 = Inl e"
      by (cases "layer_forward E X (rnd' k) l2 in2 g2") simp_all
    with Inl show ?thesis by (simp add: bindE_def)
  next
    case (Inr h1)
    with fr obtain h2 where h2: "layer_forward E X (rnd' k) l2 in2 g2 = Inr h2"
      "fwd_rel l1 l2 g1 g2 h1 h2"
      by (cases "layer_forward E X (rnd' k) l2 in2 g2") simp_all
    from h2(2) have sh: "shape h1 = shape g1" "shape h2 = shape g2"
      and eq: "deref_d h1 (output l1) = deref_d h2 (output l2)"
      unfolding fwd_rel_def by auto
    have w1: "\<forall>l\<in>set ls1. layer_wf h1 l" using Cons.prems(1) sh(1) layer_wf_shape by auto
    have w2: "\<forall>l\<in>set ls2. layer_wf h2 l" using Cons.prems(2) sh(2) layer_wf_shape by auto
    have d: "deref_r h1 (Ptr (output l1)) = deref_r h2 (Ptr (output l2))"
      using eq by (simp add: deref_r_def)
    have c1: "chain_sep (Ptr (output l1)) ls1" "chain_sep (Ptr (output l2)) ls2"
      using Cons.prems(4,5) by simp_all
    from Cons.IH [OF w1 w2 d c1 Cons.prems(6), of "Suc k"]
    show ?thesis using Inr h2(1) lo fin by (simp add: bindE_def)
  qed
qed

section \<open>Properties of saving and loading\<close>

lemma layer_save_append:
  "layer_save E l fp = (fst (layer_save E l fp), fp @ snd (layer_save E l []))"
  if "layer_type l = DROPOUT \<or> layer_type l = MAXPOOL"
  using that type_consts
  by (auto simp: layer_save_def neural_layer_dropout_save_def neural_layer_maxpool_save_def)

lemma layer_save_count:
  "fst (layer_save E l fp) = fst (layer_save E l [])"
  if "layer_type l = DROPOUT \<or> layer_type l = MAXPOOL"
  using that type_consts
  by (auto simp: layer_save_def neural_layer_dropout_save_def neural_layer_maxpool_save_def)

lemma sizes_ok_type: "sizes_ok E l \<Longrightarrow> layer_type l = DROPOUT \<or> layer_type l = MAXPOOL"
  by (auto simp: sizes_ok_def)

lemma save_loop_Cons:
  assumes "layer_type l = DROPOUT \<or> layer_type l = MAXPOOL"
  shows "save_loop E (l # ls) (s, fp) =
           save_loop E ls (s + 1 + fst (layer_save E l []),
                           fp @ IntE (layer_type l) # snd (layer_save E l []))"
proof -
  have "layer_save E l (fp @ [IntE (layer_type l)]) =
          (fst (layer_save E l []), (fp @ [IntE (layer_type l)]) @ snd (layer_save E l []))"
    using layer_save_append [OF assms, of E "fp @ [IntE (layer_type l)]"]
      layer_save_count [OF assms, of E "fp @ [IntE (layer_type l)]"] by simp
  then show ?thesis by simp
qed

lemma save_loop_append:
  assumes "\<forall>l\<in>set ls. layer_type l = DROPOUT \<or> layer_type l = MAXPOOL"
  shows "save_loop E ls (s, fp) =
           (s + fst (save_loop E ls (0, [])), fp @ snd (save_loop E ls (0, [])))"
  using assms
proof (induction ls arbitrary: s fp)
  case Nil
  then show ?case by simp
next
  case (Cons l ls)
  have t: "layer_type l = DROPOUT \<or> layer_type l = MAXPOOL" using Cons.prems by simp
  have r: "\<forall>l\<in>set ls. layer_type l = DROPOUT \<or> layer_type l = MAXPOOL" using Cons.prems by simp
  note ih = Cons.IH [OF r]
  show ?case
    unfolding save_loop_Cons [OF t]
    by (subst ih, subst (2 3) ih) simp
qed

text \<open>
  What \<open>layer_load\<close> reads back from the elements \<open>layer_save\<close> wrote, and where the arrays
  it allocates lie: at the three addresses from the old break on, leaving every older
  array as it was.
\<close>

lemma layer_wf_grid: "layer_wf g l \<Longrightarrow> grid_ok l"
  by (auto simp: layer_wf_def grid_ok_def split: if_splits)

lemma layer_load_save:
  assumes "sizes_ok E l" and "layer_type u = layer_type l"
  shows "\<exists>l' h'. layer_load E u (snd (layer_save E l []) @ rest) h =
             Inr (fst (layer_save E l []), l', rest, h') \<and> same_config l l' \<and>
           (grid_ok l' \<longrightarrow> layer_wf h' l') \<and> brk h' = brk h + 3 \<and>
           (\<exists>b. output l' = Some b \<and> brk h \<le> b \<and> b < brk h + 3) \<and>
           dbufs l' \<union> ibufs l' = {brk h, brk h + 1, brk h + 2} \<and>
           (\<forall>a<brk h. dmem h' a = dmem h a \<and> imem h' a = imem h a)"
  using assms(1) unfolding sizes_ok_def
proof (elim disjE conjE)
  assume "layer_type l = DROPOUT" "1 \<le> n_inputs l" "n_inputs l \<le> N_INPUTS_MAX E"
  then show ?thesis
    using assms(2) type_consts
    by (auto simp: layer_load_def layer_save_def neural_layer_dropout_save_def
        neural_layer_dropout_load_def fread_int_def fread_dbl_def
        dropout_malloc_layer_arrays_def calloc_d_def bindE_def same_config_def
        layer_wf_def dbufs_def ibufs_def)
next
  assume "layer_type l = MAXPOOL" "1 \<le> n_outputs l" "n_outputs l \<le> N_OUTPUTS_MAX E"
  then show ?thesis
    using assms(2) type_consts
    by (auto simp: layer_load_def layer_save_def neural_layer_maxpool_save_def
        neural_layer_maxpool_load_def fread_int_def
        maxpool_malloc_layer_arrays_def calloc_d_def calloc_i_def bindE_def same_config_def
        layer_wf_def dbufs_def ibufs_def grid_ok_def)
qed

lemma layer_wf_frame:
  assumes "layer_wf h l" and "\<forall>a\<in>dbufs l \<union> ibufs l. a < k"
    and "\<forall>a<k. dmem h' a = dmem h a \<and> imem h' a = imem h a"
  shows "layer_wf h' l"
proof (cases "layer_type l = DROPOUT")
  case True
  with assms(1) obtain a out where w: "output l = Some a" "dmem h a = Some out"
    "length out = nat (n_inputs l)" unfolding layer_wf_def by auto
  then have "a \<in> dbufs l" by (simp add: dbufs_def)
  with assms(2,3) have "dmem h' a = dmem h a" by blast
  then show ?thesis using True w unfolding layer_wf_def by auto
next
  case False
  with assms(1) obtain a b out ix where w: "layer_type l = MAXPOOL" "output l = Some a"
    "indexes l = Some b" "dmem h a = Some out" "imem h b = Some ix"
    "length out = nat (n_outputs l)" "length ix = nat (n_outputs l)"
    "n_outputs l = out_h l * out_w l * channels l" "0 \<le> out_h l" "0 \<le> out_w l"
    "0 \<le> channels l"
    unfolding layer_wf_def by auto
  then have "a \<in> dbufs l" "b \<in> ibufs l" by (simp_all add: dbufs_def ibufs_def)
  with assms(2,3) have "dmem h' a = dmem h a" "imem h' b = imem h b" by blast+
  then show ?thesis using False w unfolding layer_wf_def by auto
qed

lemma load_step_save:
  assumes "sizes_ok E l" and "i = length (layers net)"
  shows "\<exists>l' h' net'. load_step E i (s, net, IntE (layer_type l) # snd (layer_save E l []) @ rest, h) =
             Inr (s + 1 + fst (layer_save E l []), net', rest, h') \<and>
           same_config l l' \<and> layers net' = layers net @ [l'] \<and>
           n_layers net' = n_layers net + 1 \<and>
           (head_inv net \<longrightarrow> head_inv net') \<and> (tail_inv net \<longrightarrow> tail_inv net') \<and>
           (grid_ok l' \<longrightarrow> layer_wf h' l') \<and> brk h' = brk h + 3 \<and>
           (\<exists>b. output l' = Some b \<and> brk h \<le> b \<and> b < brk h + 3) \<and>
           dbufs l' \<union> ibufs l' = {brk h, brk h + 1, brk h + 2} \<and>
           (\<forall>a<brk h. dmem h' a = dmem h a \<and> imem h' a = imem h a)"
proof -
  let ?u = "(uninitialised E)\<lparr>layer_type := layer_type l\<rparr>"
  have "layer_type ?u = layer_type l" by simp
  from layer_load_save [OF assms(1) this, of rest h]
  obtain l' h' where ld: "layer_load E ?u (snd (layer_save E l []) @ rest) h =
             Inr (fst (layer_save E l []), l', rest, h')" "same_config l l'"
    "grid_ok l' \<longrightarrow> layer_wf h' l'" "brk h' = brk h + 3"
    "\<exists>b. output l' = Some b \<and> brk h \<le> b \<and> b < brk h + 3"
    "dbufs l' \<union> ibufs l' = {brk h, brk h + 1, brk h + 2}"
    "\<forall>a<brk h. dmem h' a = dmem h a \<and> imem h' a = imem h a"
    by (elim exE conjE) (rule that; (assumption | blast))
  let ?n' = "net\<lparr>layers := layers net @ [l'], n_layers := n_layers net + 1,
                    net_n_inputs := (if layers net = [] then n_inputs l' else net_n_inputs net),
                    net_n_outputs := n_outputs l', net_output := output l'\<rparr>"
  have ins: "neural_layer_insert net l' (int i) = Inr ?n'"
    using assms(2) by (intro insert_at_end) simp
  have "load_step E i (s, net, IntE (layer_type l) # snd (layer_save E l []) @ rest, h) =
          Inr (s + 1 + fst (layer_save E l []), ?n', rest, h')"
    using ld(1) ins by (simp add: load_step_def fread_int_def bindE_def)
  moreover have "head_inv net \<longrightarrow> head_inv ?n'" using head_inv_insert [OF _ ins] by blast
  moreover have "tail_inv net \<longrightarrow> tail_inv ?n'" using tail_inv_insert [OF _ ins] by blast
  ultimately show ?thesis using ld(2-7)
    by (intro exI [of _ l'] exI [of _ h'] exI [of _ ?n']) simp
qed

lemma chain_sep_fresh:
  assumes "\<forall>a. r = Ptr (Some a) \<longrightarrow> a < k" and "output l = Some b" and "k \<le> b"
  shows "r \<noteq> Ptr (output l)"
  using assms by auto

lemma load_loop_save:
  assumes "\<forall>l\<in>set ls. sizes_ok E l" and "k = length (layers net)"
  shows "\<exists>net' h' cs. forE [k..<k + length ls] (load_step E)
               (s, net, snd (save_loop E ls (0, [])) @ rest, h) =
             Inr (s + fst (save_loop E ls (0, [])), net', rest, h') \<and>
           layers net' = layers net @ cs \<and> list_all2 same_config ls cs \<and>
           n_layers net' = n_layers net + int (length ls) \<and>
           (head_inv net \<longrightarrow> head_inv net') \<and> (tail_inv net \<longrightarrow> tail_inv net') \<and>
           brk h \<le> brk h' \<and> (\<forall>c\<in>set cs. grid_ok c \<longrightarrow> layer_wf h' c) \<and>
           (\<forall>c\<in>set cs. \<forall>a\<in>dbufs c \<union> ibufs c. brk h \<le> a \<and> a < brk h') \<and>
           (\<forall>a<brk h. dmem h' a = dmem h a \<and> imem h' a = imem h a) \<and>
           (\<forall>r. (\<forall>a. r = Ptr (Some a) \<longrightarrow> a < brk h) \<longrightarrow> chain_sep r cs)"
  using assms
proof (induction ls arbitrary: k net s h)
  case Nil
  then show ?case by simp
next
  case (Cons l ls)
  have ok: "sizes_ok E l" and oks: "\<forall>l\<in>set ls. sizes_ok E l" using Cons.prems(1) by simp_all
  have t: "layer_type l = DROPOUT \<or> layer_type l = MAXPOOL" using ok by (rule sizes_ok_type)
  have ts: "\<forall>l\<in>set ls. layer_type l = DROPOUT \<or> layer_type l = MAXPOOL"
    using oks sizes_ok_type by blast
  let ?c = "fst (layer_save E l [])" and ?its = "snd (layer_save E l [])"
  have sv: "save_loop E (l # ls) (0, []) =
              (1 + ?c + fst (save_loop E ls (0, [])),
               IntE (layer_type l) # ?its @ snd (save_loop E ls (0, [])))"
    unfolding save_loop_Cons [OF t]
    by (subst save_loop_append [OF ts]) simp
  from load_step_save [OF ok Cons.prems(2), of s "snd (save_loop E ls (0, [])) @ rest" h]
  obtain l' h1 n1 b where st:
    "load_step E k (s, net, IntE (layer_type l) # ?its @ snd (save_loop E ls (0, [])) @ rest, h) =
       Inr (s + 1 + ?c, n1, snd (save_loop E ls (0, [])) @ rest, h1)"
    "same_config l l'" "layers n1 = layers net @ [l']" "n_layers n1 = n_layers net + 1"
    "head_inv net \<longrightarrow> head_inv n1" "tail_inv net \<longrightarrow> tail_inv n1"
    "grid_ok l' \<longrightarrow> layer_wf h1 l'" "brk h1 = brk h + 3"
    "output l' = Some b" "brk h \<le> b" "b < brk h + 3"
    "dbufs l' \<union> ibufs l' = {brk h, brk h + 1, brk h + 2}"
    "\<forall>a<brk h. dmem h1 a = dmem h a \<and> imem h1 a = imem h a"
    by (elim exE conjE) (rule that; assumption)
  have k1: "Suc k = length (layers n1)" using st(3) Cons.prems(2) by simp
  from Cons.IH [OF oks k1, of "s + 1 + ?c" h1]
  obtain net' h' cs where ih:
    "forE [Suc k..<Suc k + length ls] (load_step E)
        (s + 1 + ?c, n1, snd (save_loop E ls (0, [])) @ rest, h1) =
      Inr (s + 1 + ?c + fst (save_loop E ls (0, [])), net', rest, h')"
    "layers net' = layers n1 @ cs" "list_all2 same_config ls cs"
    "n_layers net' = n_layers n1 + int (length ls)"
    "head_inv n1 \<longrightarrow> head_inv net'" "tail_inv n1 \<longrightarrow> tail_inv net'"
    "brk h1 \<le> brk h'" "\<forall>c\<in>set cs. grid_ok c \<longrightarrow> layer_wf h' c"
    "\<forall>c\<in>set cs. \<forall>a\<in>dbufs c \<union> ibufs c. brk h1 \<le> a \<and> a < brk h'"
    "\<forall>a<brk h1. dmem h' a = dmem h1 a \<and> imem h' a = imem h1 a"
    "\<forall>r. (\<forall>a. r = Ptr (Some a) \<longrightarrow> a < brk h1) \<longrightarrow> chain_sep r cs"
    by (elim exE conjE) (rule that; assumption)
  have u: "[k..<k + length (l # ls)] = k # [Suc k..<Suc k + length ls]"
    by (simp add: upt_rec)
  have run: "forE [k..<k + length (l # ls)] (load_step E)
               (s, net, snd (save_loop E (l # ls) (0, [])) @ rest, h) =
             Inr (s + fst (save_loop E (l # ls) (0, [])), net', rest, h')"
    unfolding u sv using st(1) ih(1) by (simp add: add.assoc)
  have lrange: "\<forall>a\<in>dbufs l' \<union> ibufs l'. brk h \<le> a \<and> a < brk h1"
    using st(8,12) by auto
  have wl: "layer_wf h' l'" if g: "grid_ok l'"
  proof -
    have "layer_wf h1 l'" using st(7) g by simp
    then show ?thesis using _ ih(10)
    proof (rule layer_wf_frame)
      show "\<forall>a\<in>dbufs l' \<union> ibufs l'. a < brk h1" using lrange by blast
    qed
  qed
  have wfs: "\<forall>c\<in>set (l' # cs). grid_ok c \<longrightarrow> layer_wf h' c" using wl ih(8) by simp
  have rng: "\<forall>c\<in>set (l' # cs). \<forall>a\<in>dbufs c \<union> ibufs c. brk h \<le> a \<and> a < brk h'"
  proof (intro ballI)
    fix c a assume c: "c \<in> set (l' # cs)" and a: "a \<in> dbufs c \<union> ibufs c"
    show "brk h \<le> a \<and> a < brk h'"
    proof (cases "c = l'")
      case True
      with a lrange have "brk h \<le> a \<and> a < brk h1" by blast
      with ih(7) show ?thesis by linarith
    next
      case False
      with c a ih(9) have "brk h1 \<le> a \<and> a < brk h'" by auto
      with st(8) show ?thesis by linarith
    qed
  qed
  have fr: "\<forall>a<brk h. dmem h' a = dmem h a \<and> imem h' a = imem h a"
    using st(8,13) ih(10) by simp
  have sep: "\<forall>r. (\<forall>a. r = Ptr (Some a) \<longrightarrow> a < brk h) \<longrightarrow> chain_sep r (l' # cs)"
  proof (intro allI impI)
    fix r assume r: "\<forall>a. r = Ptr (Some a) \<longrightarrow> a < brk h"
    have "r \<noteq> Ptr (output l')" using r st(9,10) by (rule chain_sep_fresh)
    moreover have "chain_sep (Ptr (output l')) cs" using ih(11) st(8,9,11) by simp
    ultimately show "chain_sep r (l' # cs)" by simp
  qed
  have "layers net' = layers net @ (l' # cs)" using ih(2) st(3) by simp
  moreover have "list_all2 same_config (l # ls) (l' # cs)" using st(2) ih(3) by simp
  moreover have "n_layers net' = n_layers net + int (length (l # ls))"
    using ih(4) st(4) by simp
  moreover have "brk h \<le> brk h'" using st(8) ih(7) by simp
  ultimately show ?case using run st(5,6) ih(5,6) wfs rng fr sep by blast
qed

lemma same_config_grid: "same_config l c \<Longrightarrow> grid_ok l \<Longrightarrow> grid_ok c"
  by (auto simp: same_config_def grid_ok_def split: if_splits)

text \<open>
  C3. Let \<open>net\<close> consist of dropout and max-pooling layers whose sizes pass the allocation
  guard, with \<open>n_layers\<close> the length of its list. Reading back what \<open>neural_save\<close> wrote,
  \<open>neural_load\<close> returns having read as many elements as were written and consumed
  exactly them; the net it builds has the same \<open>n_layers\<close>, the same layer types in the
  same order and, layer by layer, the same configuration fields; its bookkeeping
  fields are consistent with its list. Outside exploration, where dropout draws no random
  numbers, \<open>neural_propagate\<close> then behaves alike on both nets for every input \<open>xs\<close>: from any
  store \<open>g\<close> in which the arrays of \<open>net\<close> are allocated, no layer being handed its own
  output array as input, either both runs stop with the same error or both return and
  the output array of the last layer holds the same values in both.
\<close>

theorem neural_save_load_roundtrip:
  assumes "\<forall>l\<in>set (layers net). sizes_ok E l" and "n_layers net = int (length (layers net))"
  shows "\<exists>net' h'. neural_load E net0 (snd (neural_save E net []) @ rest) h =
             Inr (fst (neural_save E net []), net', rest, h') \<and>
           n_layers net' = n_layers net \<and>
           map layer_type (layers net') = map layer_type (layers net) \<and>
           list_all2 same_config (layers net) (layers net') \<and>
           head_inv net' \<and> tail_inv net' \<and>
           (\<forall>X rnd rnd' xs g.
              \<not> explore X \<and> (\<forall>l\<in>set (layers net). layer_wf g l) \<and>
              chain_sep (Arr xs) (layers net) \<longrightarrow>
              rel_sum (=)
                (\<lambda>k1 k2. deref_r k1 (final_ref (Arr xs) (layers net)) =
                          deref_r k2 (final_ref (Arr xs) (layers net')))
                (neural_propagate E X rnd net xs g) (neural_propagate E X rnd' net' xs h'))"
proof -
  let ?ls = "layers net"
  let ?hd = "[IntE (n_layers net), IntE (net_n_inputs net), IntE (net_n_outputs net)]"
  have ts: "\<forall>l\<in>set ?ls. layer_type l = DROPOUT \<or> layer_type l = MAXPOOL"
    using assms(1) sizes_ok_type by blast
  have sv: "neural_save E net [] =
              (3 + fst (save_loop E ?ls (0, [])), ?hd @ snd (save_loop E ?ls (0, [])))"
    unfolding neural_save_def by (subst save_loop_append [OF ts]) simp
  have k0: "0 = length (layers (neural_init net0))" by (simp add: neural_init_def)
  from load_loop_save [OF assms(1) k0, of 3 rest h]
  obtain net' h' cs where r:
    "forE [0..<0 + length ?ls] (load_step E)
        (3, neural_init net0, snd (save_loop E ?ls (0, [])) @ rest, h) =
      Inr (3 + fst (save_loop E ?ls (0, [])), net', rest, h')"
    "layers net' = layers (neural_init net0) @ cs" "list_all2 same_config ?ls cs"
    "n_layers net' = n_layers (neural_init net0) + int (length ?ls)"
    "head_inv (neural_init net0) \<longrightarrow> head_inv net'"
    "tail_inv (neural_init net0) \<longrightarrow> tail_inv net'"
    "\<forall>c\<in>set cs. grid_ok c \<longrightarrow> layer_wf h' c"
    "\<forall>r. (\<forall>a. r = Ptr (Some a) \<longrightarrow> a < brk h) \<longrightarrow> chain_sep r cs"
    by (elim exE conjE) (rule that; assumption)
  have ld: "neural_load E net0 (snd (neural_save E net []) @ rest) h =
             Inr (fst (neural_save E net []), net', rest, h')"
    unfolding sv using r(1) assms(2) by (simp add: neural_load_def fread_int_def eval_nat_numeral)
  have ls: "layers net' = cs" using r(2) by (simp add: neural_init_def)
  have n: "n_layers net' = n_layers net" using r(4) assms(2) by (simp add: neural_init_def)
  have "layer_type c = layer_type l" if "same_config l c" for l c
    using that by (simp add: same_config_def)
  then have "list_all2 (\<lambda>l c. layer_type c = layer_type l) ?ls cs"
    using r(3) by (rule list_all2_mono [rotated])
  then have ty: "map layer_type cs = map layer_type ?ls"
    by (induction rule: list_all2_induct) simp_all
  have fw: "rel_sum (=)
              (\<lambda>k1 k2. deref_r k1 (final_ref (Arr xs) ?ls) = deref_r k2 (final_ref (Arr xs) cs))
              (neural_propagate E X rnd net xs g) (neural_propagate E X rnd' net' xs h')"
    if x: "\<not> explore X" and w: "\<forall>l\<in>set ?ls. layer_wf g l" and c: "chain_sep (Arr xs) ?ls"
    for X rnd rnd' xs g
  proof -
    have c': "chain_sep (Arr xs) cs" using r(8) by simp
    have i: "deref_r g (Arr xs) = deref_r h' (Arr xs)" by (simp add: deref_r_def)
    have "\<forall>c\<in>set cs. grid_ok c"
      using r(3) w
    proof (induction rule: list_all2_induct)
      case Nil
      then show ?case by simp
    next
      case (Cons l ls c cs)
      have "layer_wf g l" using Cons.prems by simp
      then have "grid_ok l" by (rule layer_wf_grid)
      with Cons.hyps(1) have "grid_ok c" by (rule same_config_grid)
      then show ?case using Cons by simp
    qed
    with r(7) have w': "\<forall>c\<in>set cs. layer_wf h' c" by blast
    show ?thesis
      unfolding neural_propagate_def ls
      using r(3) w w' i c c' x by (rule propagate_rel)
  qed
  have hi: "head_inv net'" and ti: "tail_inv net'" using r(5,6) head_inv_init by auto
  show ?thesis
    apply (intro exI [of _ net'] exI [of _ h'] conjI ld n)
    subgoal using ty ls by simp
    subgoal using r(3) ls by simp
    subgoal by (rule hi)
    subgoal by (rule ti)
    subgoal using fw ls by simp
    done
qed


theorem neural_save_load_roundtrip_witness:
  "\<exists>net' h'. neural_load ex_ext empty_net (snd (neural_save ex_ext ex_net2 [])) ex_heap =
      Inr (fst (neural_save ex_ext ex_net2 []), net', [], h') \<and>
    n_layers net' = 2 \<and> map layer_type (layers net') = [MAXPOOL, DROPOUT] \<and>
    list_all2 same_config [ex_maxpool, ex_dropout] (layers net') \<and>
    rel_sum (=)
      (\<lambda>k1 k2. deref_r k1 (final_ref (Arr [1, 2, 3, 4]) (layers ex_net2)) =
                deref_r k2 (final_ref (Arr [1, 2, 3, 4]) (layers net')))
      (neural_propagate ex_ext \<lparr>BETA = 1 / 2, y_dim = 1, explore = False\<rparr> (\<lambda>k i. 0)
         ex_net2 [1, 2, 3, 4] ex_heap)
      (neural_propagate ex_ext \<lparr>BETA = 1 / 2, y_dim = 1, explore = False\<rparr> (\<lambda>k i. 0)
         net' [1, 2, 3, 4] h')"
proof -
  let ?X = "\<lparr>BETA = 1 / 2, y_dim = 1, explore = False\<rparr>"
  have f: "layer_type ex_maxpool = MAXPOOL" "layer_type ex_dropout = DROPOUT"
    "n_outputs ex_maxpool = 1" "n_inputs ex_dropout = 1"
    by (simp_all add: ex_maxpool_def ex_dropout_def zero_layer_def)
  have a: "\<forall>l\<in>set (layers ex_net2). sizes_ok ex_ext l"
    by (simp add: ex_net2_def sizes_ok_def f ex_ext_def)
  have b: "n_layers ex_net2 = int (length (layers ex_net2))" by (simp add: ex_net2_def)
  have w: "\<forall>l\<in>set (layers ex_net2). layer_wf ex_heap l"
    using type_consts
    by (simp add: ex_net2_def layer_wf_def ex_maxpool_def ex_dropout_def zero_layer_def
        ex_heap_def)
  have c: "chain_sep (Arr [1, 2, 3, 4]) (layers ex_net2)"
    by (simp add: ex_net2_def ex_maxpool_def ex_dropout_def zero_layer_def)
  have x: "\<not> explore ?X" by simp
  from neural_save_load_roundtrip [OF a b, of empty_net "[]" ex_heap]
  obtain net' h' where r:
    "neural_load ex_ext empty_net (snd (neural_save ex_ext ex_net2 []) @ []) ex_heap =
       Inr (fst (neural_save ex_ext ex_net2 []), net', [], h')"
    "n_layers net' = n_layers ex_net2"
    "map layer_type (layers net') = map layer_type (layers ex_net2)"
    "list_all2 same_config (layers ex_net2) (layers net')"
    "\<forall>X rnd rnd' xs g.
       \<not> explore X \<and> (\<forall>l\<in>set (layers ex_net2). layer_wf g l) \<and>
       chain_sep (Arr xs) (layers ex_net2) \<longrightarrow>
       rel_sum (=)
         (\<lambda>k1 k2. deref_r k1 (final_ref (Arr xs) (layers ex_net2)) =
                   deref_r k2 (final_ref (Arr xs) (layers net')))
         (neural_propagate ex_ext X rnd ex_net2 xs g) (neural_propagate ex_ext X rnd' net' xs h')"
    by (elim exE conjE) (rule that; assumption)
  have "n_layers net' = 2" using r(2) by (simp add: ex_net2_def)
  moreover have "map layer_type (layers net') = [MAXPOOL, DROPOUT]"
    using r(3) by (simp add: ex_net2_def f)
  moreover have "list_all2 same_config [ex_maxpool, ex_dropout] (layers net')"
    using r(4) by (simp add: ex_net2_def)
  moreover have "rel_sum (=)
      (\<lambda>k1 k2. deref_r k1 (final_ref (Arr [1, 2, 3, 4]) (layers ex_net2)) =
                deref_r k2 (final_ref (Arr [1, 2, 3, 4]) (layers net')))
      (neural_propagate ex_ext ?X (\<lambda>k i. 0) ex_net2 [1, 2, 3, 4] ex_heap)
      (neural_propagate ex_ext ?X (\<lambda>k i. 0) net' [1, 2, 3, 4] h')"
    using r(5) x w c by blast
  ultimately show ?thesis using r(1) by (intro exI [of _ net'] exI [of _ h']) simp
qed

section \<open>Properties of the learning step\<close>

lemma bindE_Inr: "bindE m Inr = m"
  by (cases m) (simp_all add: bindE_def)

lemma seqE_append: "seqE (fs @ gs) s = bindE (seqE fs s) (seqE gs)"
  by (induction fs arbitrary: s) (auto simp: bindE_def split: sum.splits)

lemma update_loop_seq:
  "update_loop E ls h = seqE (map (layer_update E) ls) h"
  by (induction ls arbitrary: h) (auto simp: bindE_def split: sum.splits)

lemma map_nth_upt: "map (\<lambda>k. f (ls ! k)) [0..<length ls] = map f ls"
  by (rule nth_equalityI) simp_all

lemma backward_loop_snoc:
  assumes "ls \<noteq> []"
  shows "backward_loop E (rev (ls @ [l])) input h =
           bindE (layer_backward E l (Ptr (output (last ls))) (delta (last ls)) h)
             (backward_loop E (rev ls) input)"
proof -
  from assms obtain ps p where ls: "ls = ps @ [p]" by (cases ls rule: rev_cases) auto
  show ?thesis unfolding ls by simp
qed

lemma backward_call_snoc:
  assumes "k < length ls"
  shows "backward_call E (ls @ [l]) input k = backward_call E ls input k"
proof (cases k)
  case 0
  then show ?thesis using assms by (simp add: backward_call_def nth_append)
next
  case (Suc j)
  then have "j < length ls" "Suc j < length ls" using assms by simp_all
  then show ?thesis unfolding Suc by (simp add: backward_call_def nth_append)
qed

lemma backward_loop_seq:
  "backward_loop E (rev ls) input h =
     seqE (map (backward_call E ls input) (rev [0..<length ls])) h"
proof (induction ls arbitrary: h rule: rev_induct)
  case Nil
  then show ?case by simp
next
  case (snoc l ls)
  show ?case
  proof (cases "ls = []")
    case True
    have "seqE [] = (Inr :: heap \<Rightarrow> error + heap)" by (simp add: fun_eq_iff)
    then show ?thesis using True by (simp add: backward_call_def bindE_Inr)
  next
    case False
    let ?n = "length ls"
    have pos: "0 < ?n" using False by simp
    have c: "map (backward_call E (ls @ [l]) input) (rev [0..<?n]) =
             map (backward_call E ls input) (rev [0..<?n])"
      by (rule map_cong) (simp_all add: backward_call_snoc)
    have top: "backward_call E (ls @ [l]) input ?n =
               layer_backward E l (Ptr (output (last ls))) (delta (last ls))"
      using pos False by (simp add: backward_call_def last_conv_nth nth_append)
    have "backward_loop E (rev (ls @ [l])) input h =
            bindE (layer_backward E l (Ptr (output (last ls))) (delta (last ls)) h)
              (backward_loop E (rev ls) input)"
      using False by (rule backward_loop_snoc)
    also have "backward_loop E (rev ls) input =
               seqE (map (backward_call E ls input) (rev [0..<?n]))"
      using snoc.IH by (simp add: fun_eq_iff)
    finally have lhs: "backward_loop E (rev (ls @ [l])) input h =
            bindE (layer_backward E l (Ptr (output (last ls))) (delta (last ls)) h)
              (seqE (map (backward_call E ls input) (rev [0..<?n])))" .
    have "seqE (map (backward_call E (ls @ [l]) input) (rev [0..<length (ls @ [l])])) h =
            bindE (backward_call E (ls @ [l]) input ?n h)
              (seqE (map (backward_call E (ls @ [l]) input) (rev [0..<?n])))"
      by simp
    also have "\<dots> = bindE (layer_backward E l (Ptr (output (last ls))) (delta (last ls)) h)
              (seqE (map (backward_call E ls input) (rev [0..<?n])))"
      by (simp only: c top)
    finally show ?thesis using lhs by simp
  qed
qed

lemma learn_calls_seq:
  "seqE (learn_calls E ls input) h =
     bindE (backward_loop E (rev ls) input h) (update_loop E ls)"
proof -
  have "update_loop E ls = seqE (map (\<lambda>k. layer_update E (ls ! k)) [0..<length ls])"
    by (simp add: fun_eq_iff update_loop_seq map_nth_upt)
  then show ?thesis
    by (simp add: learn_calls_def seqE_append backward_loop_seq)
qed

lemma memset0_live:
  "dmem h a = Some d \<Longrightarrow> 0 \<le> n \<Longrightarrow> nat n \<le> length d \<Longrightarrow>
   memset0_d (Some a) n h = Inr (h\<lparr>dmem := (dmem h)(a \<mapsto> replicate (nat n) 0 @ drop (nat n) d)\<rparr>)"
  by (simp add: memset0_d_def bindE_def deref_d_def store_d_def)

lemma keeps_zeros_refl: "keeps_zeros h h"
  by (simp add: keeps_zeros_def)

lemma keeps_zerosD:
  assumes "keeps_zeros h h1" "dmem h a = Some d"
  shows "\<exists>d1. dmem h1 a = Some d1 \<and> length d1 = length d \<and>
           (\<forall>i<length d. d ! i = 0 \<longrightarrow> d1 ! i = 0)"
  using assms unfolding keeps_zeros_def by blast

lemma keeps_zeros_trans:
  assumes "keeps_zeros h h1" "keeps_zeros h1 h2"
  shows "keeps_zeros h h2"
  unfolding keeps_zeros_def
proof (intro allI impI)
  fix a d assume "dmem h a = Some d"
  from keeps_zerosD [OF assms(1) this]
  obtain d1 where d1: "dmem h1 a = Some d1" "length d1 = length d"
    "\<forall>i<length d. d ! i = 0 \<longrightarrow> d1 ! i = 0"
    by blast
  from keeps_zerosD [OF assms(2) d1(1)]
  obtain d2 where d2: "dmem h2 a = Some d2" "length d2 = length d1"
    "\<forall>i<length d1. d1 ! i = 0 \<longrightarrow> d2 ! i = 0"
    by blast
  show "\<exists>d1. dmem h2 a = Some d1 \<and> length d1 = length d \<and>
          (\<forall>i<length d. d ! i = 0 \<longrightarrow> d1 ! i = 0)"
    using d1 d2 by auto
qed

lemma keeps_zeros_memset:
  assumes "dmem h a = Some d" "n \<le> length d"
  shows "keeps_zeros h (h\<lparr>dmem := (dmem h)(a \<mapsto> replicate n 0 @ drop n d)\<rparr>)"
  using assms by (auto simp: keeps_zeros_def nth_append)

lemma delta_ok_keeps:
  assumes "keeps_zeros h h1" "delta_ok h l"
  shows "delta_ok h1 l"
proof -
  from assms(2) obtain a d where l: "delta l = Some a" "dmem h a = Some d" "0 \<le> n_outputs l"
    "nat (n_outputs l) \<le> length d"
    unfolding delta_ok_def by blast
  from keeps_zerosD [OF assms(1) l(2)]
  obtain d1 where "dmem h1 a = Some d1" "length d1 = length d"
    by blast
  then show ?thesis using l unfolding delta_ok_def by auto
qed

lemma delta_zero_keeps:
  assumes "keeps_zeros h h1" "delta_zero h l"
  shows "delta_zero h1 l"
proof -
  from assms(2) obtain a d where l: "delta l = Some a" "dmem h a = Some d"
    "nat (n_outputs l) \<le> length d" "\<forall>i<nat (n_outputs l). d ! i = 0"
    unfolding delta_zero_def by blast
  from keeps_zerosD [OF assms(1) l(2)]
  obtain d1 where d1: "dmem h1 a = Some d1" "length d1 = length d"
    "\<forall>i<length d. d ! i = 0 \<longrightarrow> d1 ! i = 0"
    by blast
  have "\<forall>i<nat (n_outputs l). d1 ! i = 0" using l(3,4) d1(3) by auto
  then show ?thesis using l d1 unfolding delta_zero_def by auto
qed

lemma reset_deltas_spec:
  assumes "\<forall>l\<in>set ls. delta_ok h l"
  shows "\<exists>h1. reset_deltas ls h = Inr h1 \<and> imem h1 = imem h \<and> keeps_zeros h h1 \<and>
           (\<forall>a. (\<forall>l\<in>set ls. delta l \<noteq> Some a) \<longrightarrow> dmem h1 a = dmem h a) \<and>
           (\<forall>l\<in>set ls. delta_zero h1 l)"
  using assms
proof (induction ls arbitrary: h)
  case Nil
  then show ?case by (simp add: keeps_zeros_refl)
next
  case (Cons l ls)
  from Cons.prems obtain a d where l: "delta l = Some a" "dmem h a = Some d" "0 \<le> n_outputs l"
    "nat (n_outputs l) \<le> length d"
    unfolding delta_ok_def by auto
  let ?n = "nat (n_outputs l)"
  let ?h' = "h\<lparr>dmem := (dmem h)(a \<mapsto> replicate ?n 0 @ drop ?n d)\<rparr>"
  have m: "memset0_d (delta l) (n_outputs l) h = Inr ?h'"
    using l by (simp add: memset0_live)
  have kz: "keeps_zeros h ?h'" using l(2,4) by (rule keeps_zeros_memset)
  have z: "delta_zero ?h' l" using l by (simp add: delta_zero_def nth_append)
  have "\<forall>l\<in>set ls. delta_ok ?h' l" using Cons.prems kz delta_ok_keeps by auto
  from Cons.IH [OF this] obtain h1 where r: "reset_deltas ls ?h' = Inr h1" "imem h1 = imem ?h'"
    "keeps_zeros ?h' h1" "\<forall>a. (\<forall>l\<in>set ls. delta l \<noteq> Some a) \<longrightarrow> dmem h1 a = dmem ?h' a"
    "\<forall>l\<in>set ls. delta_zero h1 l"
    by blast
  have "reset_deltas (l # ls) h = Inr h1" using m r(1) by (simp add: bindE_def)
  moreover have "keeps_zeros h h1" using kz r(3) by (rule keeps_zeros_trans)
  moreover have "\<forall>a'. (\<forall>l'\<in>set (l # ls). delta l' \<noteq> Some a') \<longrightarrow> dmem h1 a' = dmem h a'"
    using r(4) l(1) by auto
  moreover have "delta_zero h1 l" using r(3) z by (rule delta_zero_keeps)
  ultimately show ?case using r(2,5) by auto
qed

lemma output_error_spec:
  assumes "output p = Some b" "delta p = Some a" "b \<noteq> a"
    and "dmem h b = Some out" "dmem h a = Some d"
    and "nat (n_outputs p) \<le> length out" "nat (n_outputs p) \<le> length d"
      "nat (n_outputs p) \<le> length truth"
  shows "\<exists>d2. output_error p truth h = Inr (h\<lparr>dmem := (dmem h)(a \<mapsto> d2)\<rparr>) \<and>
           length d2 = length d \<and>
           (\<forall>i<nat (n_outputs p). d2 ! i = truth ! i - out ! i) \<and>
           (\<forall>i. nat (n_outputs p) \<le> i \<longrightarrow> d2 ! i = d ! i)"
proof -
  let ?n = "nat (n_outputs p)"
  let ?P = "\<lambda>k h'. \<exists>d'. h' = h\<lparr>dmem := (dmem h)(a \<mapsto> d')\<rparr> \<and> length d' = length d \<and>
      (\<forall>i<k. d' ! i = truth ! i - out ! i) \<and> (\<forall>i. k \<le> i \<longrightarrow> d' ! i = d ! i)"
  have "\<exists>h'. forE [0..<?n] (output_error_step p truth) h = Inr h' \<and> ?P ?n h'"
  proof (rule forE_upt_rule [where P = ?P])
    have "h = h\<lparr>dmem := (dmem h)(a \<mapsto> d)\<rparr>" using assms(5) by (simp add: fun_upd_idem)
    then show "?P 0 h" by auto
  next
    fix k h' assume k: "k < ?n" and P: "?P k h'"
    then obtain d' where d': "h' = h\<lparr>dmem := (dmem h)(a \<mapsto> d')\<rparr>" "length d' = length d"
      "\<forall>i<k. d' ! i = truth ! i - out ! i" "\<forall>i. k \<le> i \<longrightarrow> d' ! i = d ! i"
      by blast
    have rt: "rd truth (int k) = Inr (truth ! k)" using k assms(8) by (simp add: rd_def)
    have po: "peek_d h' (output p) (int k) = Inr (out ! k)"
      using k assms d'(1) by (simp add: peek_d_live)
    have pk: "poke_d (delta p) (int k) (truth ! k - out ! k) h' =
                Inr (h'\<lparr>dmem := (dmem h')(a \<mapsto> d'[k := truth ! k - out ! k])\<rparr>)"
      using k assms d'(1,2) by (simp add: poke_d_live)
    have st: "output_error_step p truth k h' =
                Inr (h\<lparr>dmem := (dmem h)(a \<mapsto> d'[k := truth ! k - out ! k])\<rparr>)"
      unfolding output_error_step_def using rt po pk d'(1) by (simp add: bindE_def)
    have "?P (Suc k) (h\<lparr>dmem := (dmem h)(a \<mapsto> d'[k := truth ! k - out ! k])\<rparr>)"
      using d'(2,3,4) k assms(7) by (auto simp: nth_list_update less_Suc_eq)
    with st show "\<exists>s'. output_error_step p truth k h' = Inr s' \<and> ?P (Suc k) s'" by blast
  qed
  then show ?thesis unfolding output_error_def by blast
qed

text \<open>
  C7. On a non-empty net whose delta arrays are live with at least \<open>n_outputs\<close> cells,
  whose head has a live output array of at least \<open>n_outputs\<close> cells that is no layer's
  delta array, and with \<open>truth\<close> at least as long, one call of \<open>neural_learn\<close> does this:
  the first loop returns with the first \<open>n_outputs\<close> delta cells of every layer at 0; the
  second sets the head's delta cells to \<open>truth[i] - output[i]\<close> and leaves every other
  delta array at 0; what follows is exactly the run of \<open>learn_calls\<close>, that is one
  \<open>layer_backward\<close> per layer from the head down to the tail (each given the output and
  delta arrays of the layer below, the tail the raw input and a null delta), then one
  \<open>layer_update\<close> per layer: \<open>2 * n_layers\<close> calls in all.
\<close>

theorem neural_learn_one_step:
  assumes ne: "layers net \<noteq> []"
    and dok: "\<forall>l\<in>set (layers net). delta_ok h l"
    and hd: "output (last (layers net)) = Some b" "dmem h b = Some out"
      "nat (n_outputs (last (layers net))) \<le> length out"
      "nat (n_outputs (last (layers net))) \<le> length truth"
    and sep: "\<forall>l\<in>set (layers net). delta l \<noteq> Some b"
  shows "\<exists>h1 h2 d2. reset_deltas (layers net) h = Inr h1 \<and>
           (\<forall>l\<in>set (layers net). delta_zero h1 l) \<and>
           output_error (last (layers net)) truth h1 = Inr h2 \<and>
           deref_d h2 (delta (last (layers net))) = Inr d2 \<and>
           (\<forall>i<nat (n_outputs (last (layers net))). d2 ! i = truth ! i - out ! i) \<and>
           (\<forall>l\<in>set (layers net). delta l \<noteq> delta (last (layers net)) \<longrightarrow> delta_zero h2 l) \<and>
           neural_learn E net truth input h = seqE (learn_calls E (layers net) input) h2 \<and>
           length (learn_calls E (layers net) input) = 2 * length (layers net)"
proof -
  let ?ls = "layers net"
  let ?p = "last ?ls"
  let ?n = "nat (n_outputs ?p)"
  from reset_deltas_spec [OF dok]
  obtain h1 where r: "reset_deltas ?ls h = Inr h1" "keeps_zeros h h1"
    "\<forall>a. (\<forall>l\<in>set ?ls. delta l \<noteq> Some a) \<longrightarrow> dmem h1 a = dmem h a"
    "\<forall>l\<in>set ?ls. delta_zero h1 l"
    by blast
  have pin: "?p \<in> set ?ls" using ne by simp
  with r(4) obtain a d where p: "delta ?p = Some a" "dmem h1 a = Some d" "?n \<le> length d"
    unfolding delta_zero_def by blast
  have ba: "b \<noteq> a" using sep pin p(1) by auto
  have ob: "dmem h1 b = Some out" using r(3) sep hd(2) by simp
  from output_error_spec [OF hd(1) p(1) ba ob p(2) hd(3) p(3) hd(4)]
  obtain d2 where e: "output_error ?p truth h1 = Inr (h1\<lparr>dmem := (dmem h1)(a \<mapsto> d2)\<rparr>)"
    "length d2 = length d" "\<forall>i<?n. d2 ! i = truth ! i - out ! i"
    by blast
  let ?h2 = "h1\<lparr>dmem := (dmem h1)(a \<mapsto> d2)\<rparr>"
  have dd: "deref_d ?h2 (delta ?p) = Inr d2" using p(1) by (simp add: deref_d_def)
  have oth: "\<forall>l\<in>set ?ls. delta l \<noteq> delta ?p \<longrightarrow> delta_zero ?h2 l"
  proof (intro ballI impI)
    fix l assume l: "l \<in> set ?ls" "delta l \<noteq> delta ?p"
    with r(4) have "delta_zero h1 l" by blast
    then show "delta_zero ?h2 l" using l(2) p(1) unfolding delta_zero_def by auto
  qed
  have nl: "neural_learn E net truth input h = seqE (learn_calls E ?ls input) ?h2"
    using ne r(1) e(1) by (simp add: neural_learn_def bindE_def learn_calls_seq)
  have len: "length (learn_calls E ?ls input) = 2 * length ?ls"
    by (simp add: learn_calls_def)
  show ?thesis using r(1,4) e(1,3) dd oth nl len by blast
qed

theorem neural_learn_one_step_witness:
  "\<exists>h1 h2 d2. reset_deltas [ex_maxpool, ex_dropout] ex_heap = Inr h1 \<and>
      output_error ex_dropout [10] h1 = Inr h2 \<and>
      deref_d h2 (Some 4) = Inr d2 \<and> d2 ! 0 = 3 \<and>
      neural_learn ex_ext ex_net2 [10] [1, 5, 3, 2] ex_heap =
        seqE (learn_calls ex_ext [ex_maxpool, ex_dropout] [1, 5, 3, 2]) h2 \<and>
      length (learn_calls ex_ext [ex_maxpool, ex_dropout] [1, 5, 3, 2]) = 4"
proof -
  have f: "delta ex_maxpool = Some 2" "delta ex_dropout = Some 4" "n_outputs ex_maxpool = 1"
    "n_outputs ex_dropout = 1" "output ex_dropout = Some 3"
    by (simp_all add: ex_maxpool_def ex_dropout_def zero_layer_def)
  have ls: "layers ex_net2 = [ex_maxpool, ex_dropout]" by (simp add: ex_net2_def)
  have ne: "layers ex_net2 \<noteq> []" by (simp add: ls)
  have dok: "\<forall>l\<in>set (layers ex_net2). delta_ok ex_heap l"
    by (simp add: ls delta_ok_def f ex_heap_def)
  have hd: "output (last (layers ex_net2)) = Some 3" "dmem ex_heap 3 = Some [7]"
    "nat (n_outputs (last (layers ex_net2))) \<le> length [7 :: real]"
    "nat (n_outputs (last (layers ex_net2))) \<le> length [10 :: real]"
    by (simp_all add: ls f ex_heap_def)
  have sep: "\<forall>l\<in>set (layers ex_net2). delta l \<noteq> Some 3" by (simp add: ls f)
  from neural_learn_one_step [OF ne dok hd sep, of ex_ext "[1, 5, 3, 2]"]
  obtain h1 h2 d2 where r: "reset_deltas (layers ex_net2) ex_heap = Inr h1"
    "output_error (last (layers ex_net2)) [10] h1 = Inr h2"
    "deref_d h2 (delta (last (layers ex_net2))) = Inr d2"
    "\<forall>i<nat (n_outputs (last (layers ex_net2))). d2 ! i = [10] ! i - [7] ! i"
    "neural_learn ex_ext ex_net2 [10] [1, 5, 3, 2] ex_heap =
       seqE (learn_calls ex_ext (layers ex_net2) [1, 5, 3, 2]) h2"
    "length (learn_calls ex_ext (layers ex_net2) [1, 5, 3, 2]) = 2 * length (layers ex_net2)"
    by (elim exE conjE) (rule that; assumption)
  have "d2 ! 0 = 3" using r(4) [rule_format, of 0] by (simp add: ls f)
  then show ?thesis using r(1,2,3,5,6) by (auto simp: ls f)
qed

end
